theory Spec2Isabelle
  imports Complex_Main "HOL-Library.Multiset" "HOL-Library.Sublist"
begin

section \<open>Intersection predicate (grid/overlap\_tria.cc, \<open>intersects\<close>)\<close>

text \<open>
  A \<open>BoundingBox<spacedim>\<close> holds a pair of points, the lower and the upper corner;
  \<open>lower_bound(d)\<close> and \<open>upper_bound(d)\<close> read coordinate \<open>d\<close> of each. The predicate
  only compares coordinates, so the coordinate type is any linear order (the finite
  \<open>double\<close> values are one).
\<close>

record 'a BoundingBox =
  boundary_points :: "'a list \<times> 'a list"

definition lower_bound :: "'a BoundingBox \<Rightarrow> nat \<Rightarrow> 'a" where
  "lower_bound b d = fst (boundary_points b) ! d"

definition upper_bound :: "'a BoundingBox \<Rightarrow> nat \<Rightarrow> 'a" where
  "upper_bound b d = snd (boundary_points b) ! d"

text \<open>The test the loop body makes on axis \<open>d\<close>: when it holds the function returns false.\<close>

definition axis_disjoint :: "('a::linorder) BoundingBox \<Rightarrow> 'a BoundingBox \<Rightarrow> nat \<Rightarrow> bool" where
  "axis_disjoint a b d \<longleftrightarrow>
     \<not> ((lower_bound a d \<le> lower_bound b d \<and> lower_bound b d \<le> upper_bound a d) \<or>
        (lower_bound a d \<le> upper_bound b d \<and> upper_bound b d \<le> upper_bound a d)) \<and>
     \<not> (lower_bound b d \<le> lower_bound a d \<and> lower_bound a d \<le> upper_bound b d)"

text \<open>The loop \<open>for (d = 0; d < spacedim; ++d)\<close> with its early return.\<close>

function intersects_from :: "nat \<Rightarrow> nat \<Rightarrow> ('a::linorder) BoundingBox \<Rightarrow> 'a BoundingBox \<Rightarrow> bool" where
  "intersects_from spacedim d a b =
     (if d < spacedim
      then (if axis_disjoint a b d then False else intersects_from spacedim (Suc d) a b)
      else True)"
  by pat_completeness auto
termination
  by (relation "measure (\<lambda>(spacedim, d, a, b). spacedim - d)") auto

declare intersects_from.simps [simp del]

definition intersects :: "nat \<Rightarrow> ('a::linorder) BoundingBox \<Rightarrow> 'a BoundingBox \<Rightarrow> bool" where
  "intersects spacedim a b = intersects_from spacedim 0 a b"

text \<open>A box is well formed when its lower corner is below its upper corner on every axis.\<close>

definition box_ok :: "nat \<Rightarrow> ('a::linorder) BoundingBox \<Rightarrow> bool" where
  "box_ok spacedim a \<longleftrightarrow> (\<forall>d<spacedim. lower_bound a d \<le> upper_bound a d)"

definition intervals_overlap :: "('a::linorder) BoundingBox \<Rightarrow> 'a BoundingBox \<Rightarrow> nat \<Rightarrow> bool" where
  "intervals_overlap a b d \<longleftrightarrow>
     lower_bound a d \<le> upper_bound b d \<and> lower_bound b d \<le> upper_bound a d"

definition mk_box :: "'a list \<Rightarrow> 'a list \<Rightarrow> 'a BoundingBox" where
  "mk_box lo hi = \<lparr>boundary_points = (lo, hi)\<rparr>"


section \<open>DoF translation (transfer/overlap\_partitioning\_tools.cc)\<close>

text \<open>
  Failed assertions of the source (\<open>Assert(cond, exc)\<close>, active in debug builds) are
  results of the model.
\<close>

datatype error = ExcInternalError | ExcNotImplemented | ExcIndexRange | ExcMessage string

type_synonym subdomain_id = nat
type_synonym global_dof_index = nat

text \<open>\<open>numbers::invalid_dof_index\<close>: the largest value of \<open>types::global_dof_index\<close>
  (an \<open>unsigned int\<close> in the default configuration of the library).\<close>

definition invalid_dof_index :: global_dof_index where
  "invalid_dof_index = 2 ^ 32 - 1"

text \<open>
  An active cell of the overlap \<open>DoFHandler\<close>, through the accessors the function calls:
  \<open>cell->is_locally_owned()\<close>, \<open>get_native_cell(cell)->subdomain_id()\<close>,
  \<open>get_native_cell(cell)->active_cell_index()\<close> and \<open>cell->get_dof_indices\<close>.
  An active cell of the native \<open>DoFHandler\<close> has its active cell index and its DoFs.
\<close>

record overlap_dh_cell =
  o_is_locally_owned :: bool
  o_native_subdomain_id :: subdomain_id
  o_native_active_cell_index :: nat
  o_dof_indices :: "global_dof_index list"

record native_dh_cell =
  n_active_cell_index :: nat
  n_dof_indices :: "global_dof_index list"

subsection \<open>Step 1: required active cell indices, grouped by owner\<close>

text \<open>\<open>m[k].push_back(v)\<close> on a \<open>std::map\<close> of vectors: a missing key starts an empty vector.\<close>

definition push_back_at :: "(nat \<rightharpoonup> 'a list) \<Rightarrow> nat \<Rightarrow> 'a \<Rightarrow> (nat \<rightharpoonup> 'a list)" where
  "push_back_at m k v = m(k \<mapsto> (case m k of None \<Rightarrow> [] | Some xs \<Rightarrow> xs) @ [v])"

fun collect_native_active_cell_ids ::
  "overlap_dh_cell list \<Rightarrow> (subdomain_id \<rightharpoonup> nat list) \<Rightarrow> (subdomain_id \<rightharpoonup> nat list)" where
  "collect_native_active_cell_ids [] m = m"
| "collect_native_active_cell_ids (cell # cells) m =
     collect_native_active_cell_ids cells
       (if o_is_locally_owned cell
        then push_back_at m (o_native_subdomain_id cell) (o_native_active_cell_index cell)
        else m)"

text \<open>After the collection every vector is sorted with \<open>std::sort\<close>; nothing else is done
  to the vectors before they are sent.\<close>

definition native_active_cell_ids_on_overlap ::
  "overlap_dh_cell list \<Rightarrow> (subdomain_id \<rightharpoonup> nat list)" where
  "native_active_cell_ids_on_overlap cells =
     (\<lambda>rank. map_option sort (collect_native_active_cell_ids cells Map.empty rank))"

subsection \<open>Step 3: packing the requested DoFs\<close>

text \<open>The record pushed for one matching cell: index, number of DoFs, the DoFs, sentinel.\<close>

definition packed_record :: "native_dh_cell \<Rightarrow> global_dof_index list" where
  "packed_record cell =
     [n_active_cell_index cell, length (n_dof_indices cell)] @ n_dof_indices cell @
     [invalid_dof_index]"

text \<open>
  The walk over \<open>native_dof_handler.active_cell_iterators()\<close>. \<open>r\<close> is
  \<open>*active_cell_index_ptr\<close> and \<open>rs\<close> what lies behind the pointer; \<open>out\<close> is
  \<open>dofs_on_native[requested_rank]\<close>. A cell whose index differs from \<open>r\<close> is skipped
  (\<open>continue\<close>); after a match the pointer advances and the walk stops (\<open>break\<close>) when
  the requests are used up.
\<close>

fun pack_walk ::
  "native_dh_cell list \<Rightarrow> nat \<Rightarrow> nat list \<Rightarrow> global_dof_index list \<Rightarrow> global_dof_index list" where
  "pack_walk [] r rs out = out"
| "pack_walk (cell # cells) r rs out =
     (if n_active_cell_index cell \<noteq> r then pack_walk cells r rs out
      else (case rs of
              [] \<Rightarrow> out @ packed_record cell
            | r' # rs' \<Rightarrow> pack_walk cells r' rs' (out @ packed_record cell)))"

text \<open>
  One request list. The body of the walk dereferences the pointer before any test. With
  an empty request list and no native active cell the body never runs and nothing is
  packed; with an empty request list and a cell to visit the first dereference reads past
  the end (undefined behaviour), and the model stops there with the error of the
  assertion that guards the pointer. Step 1 never creates an empty list.
\<close>

definition pack_requested :: "native_dh_cell list \<Rightarrow> nat list \<Rightarrow> error + global_dof_index list" where
  "pack_requested cells req =
     (case req of
        [] \<Rightarrow> (if cells = [] then Inr [] else Inl ExcInternalError)
      | r # rs \<Rightarrow> Inr (pack_walk cells r rs []))"

text \<open>The native active cells with a requested index, in the order of the walk.\<close>

definition requested_cells :: "native_dh_cell list \<Rightarrow> nat list \<Rightarrow> native_dh_cell list" where
  "requested_cells cells req = filter (\<lambda>c. n_active_cell_index c \<in> set req) cells"


subsection \<open>Step 4: pairing overlap DoFs with native DoFs\<close>

text \<open>
  \<open>std::sort\<close> with a comparison \<open>cmp\<close> returns some rearrangement of its input in
  which no element is \<open>cmp\<close>-below an earlier one; the order of equivalent elements is not
  fixed. \<open>std::unique\<close> keeps the first element of every run of equal elements.
\<close>

definition std_sort_result :: "('a \<Rightarrow> 'a \<Rightarrow> bool) \<Rightarrow> 'a list \<Rightarrow> 'a list \<Rightarrow> bool" where
  "std_sort_result cmp xs ys \<longleftrightarrow> mset ys = mset xs \<and> sorted_wrt (\<lambda>a b. \<not> cmp b a) ys"

definition std_unique :: "'a list \<Rightarrow> 'a list" where
  "std_unique xs = remdups_adj xs"

text \<open>\<open>std::lower_bound\<close> over the cells sorted by native active cell index: the first cell
  whose index is not below the value.\<close>

definition std_lower_bound :: "overlap_dh_cell list \<Rightarrow> nat \<Rightarrow> overlap_dh_cell option" where
  "std_lower_bound cells val = find (\<lambda>a. \<not> o_native_active_cell_index a < val) cells"

text \<open>A function that behaves as \<open>std::sort\<close> with the comparison \<open>cmp\<close> on every input.\<close>

definition is_std_sort :: "('a \<Rightarrow> 'a \<Rightarrow> bool) \<Rightarrow> ('a list \<Rightarrow> 'a list) \<Rightarrow> bool" where
  "is_std_sort cmp std_sort \<longleftrightarrow> (\<forall>xs. std_sort_result cmp xs (std_sort xs))"

text \<open>The locally owned overlap cells, sorted by native active cell index. The call of
  \<open>std::sort\<close> is the parameter \<open>std_sort_cells\<close>: cells with the same index may come out in
  any order.\<close>

definition overlap_dh_cells ::
  "(overlap_dh_cell list \<Rightarrow> overlap_dh_cell list) \<Rightarrow> overlap_dh_cell list \<Rightarrow> overlap_dh_cell list" where
  "overlap_dh_cells std_sort_cells cells = std_sort_cells (filter o_is_locally_owned cells)"

text \<open>
  The \<open>while (packed_ptr < native_dofs.cend())\<close> loop over one packed vector: read the
  active cell index, find the overlap cell, read the count and that many native DoFs, check
  the sentinel, and pair the overlap cell's DoFs with the native ones. A read past the end
  of the vector (undefined behaviour in the source) ends the model with an error, as the
  failed assertions do.
\<close>

function unpack_records ::
  "overlap_dh_cell list \<Rightarrow> global_dof_index list \<Rightarrow>
   (global_dof_index \<times> global_dof_index) list \<Rightarrow>
   error + (global_dof_index \<times> global_dof_index) list" where
  "unpack_records sorted_cells [] overlap_to_native = Inr overlap_to_native"
| "unpack_records sorted_cells (active_cell_index # packed) overlap_to_native =
     (case std_lower_bound sorted_cells active_cell_index of
        None \<Rightarrow> Inl ExcInternalError
      | Some overlap_dh_cell \<Rightarrow>
          if o_native_active_cell_index overlap_dh_cell \<noteq> active_cell_index
          then Inl ExcInternalError
          else (case packed of
                  [] \<Rightarrow> Inl ExcInternalError
                | n_dofs # rest \<Rightarrow>
                    if length rest \<le> n_dofs then Inl ExcInternalError
                    else if rest ! n_dofs \<noteq> invalid_dof_index then Inl ExcInternalError
                    else if length (o_dof_indices overlap_dh_cell) < n_dofs
                    then Inl ExcInternalError
                    else unpack_records sorted_cells (drop (Suc n_dofs) rest)
                           (overlap_to_native @
                            zip (take n_dofs (o_dof_indices overlap_dh_cell))
                                (take n_dofs rest))))"
  by pat_completeness auto
termination
  by (relation "measure (\<lambda>(sorted_cells, packed, acc). length packed)") auto

text \<open>The loop over the received map, in the order of its keys.\<close>

fun unpack_all ::
  "overlap_dh_cell list \<Rightarrow> (subdomain_id \<times> global_dof_index list) list \<Rightarrow>
   (global_dof_index \<times> global_dof_index) list \<Rightarrow>
   error + (global_dof_index \<times> global_dof_index) list" where
  "unpack_all sorted_cells [] overlap_to_native = Inr overlap_to_native"
| "unpack_all sorted_cells ((rank, native_dofs) # received) overlap_to_native =
     (case unpack_records sorted_cells native_dofs overlap_to_native of
        Inl e \<Rightarrow> Inl e
      | Inr overlap_to_native' \<Rightarrow> unpack_all sorted_cells received overlap_to_native')"

text \<open>Lines 175 to 186 after the sort: \<open>std::unique\<close>, \<open>erase\<close>, and the second components.\<close>

definition native_indices_of ::
  "(global_dof_index \<times> global_dof_index) list \<Rightarrow> global_dof_index list" where
  "native_indices_of sorted_pairs = map snd (std_unique sorted_pairs)"




text \<open>
  The replies in the format of step 3: from each rank, the records of some native active
  cells. For one record, the overlap cell that \<open>std::lower_bound\<close> finds must have the
  index of the record and at least as many DoFs; the record then pairs the DoFs of that
  overlap cell with its own, in the order of the element.
\<close>

definition dofs_on_owned_cells :: "overlap_dh_cell list \<Rightarrow> global_dof_index list" where
  "dofs_on_owned_cells cells = concat (map o_dof_indices (filter o_is_locally_owned cells))"

definition reply_indices :: "(subdomain_id \<times> native_dh_cell list) list \<Rightarrow> nat list" where
  "reply_indices replies = concat (map (\<lambda>(rank, cells). map n_active_cell_index cells) replies)"

text \<open>The replies hold records for the native cells of the locally owned overlap cells and
  for no other cell.\<close>

definition replies_cover ::
  "overlap_dh_cell list \<Rightarrow> (subdomain_id \<times> native_dh_cell list) list \<Rightarrow> bool" where
  "replies_cover cells replies \<longleftrightarrow>
     set (reply_indices replies) =
     set (map o_native_active_cell_index (filter o_is_locally_owned cells))"

text \<open>Both handlers number the DoFs of a cell in the same order, and \<open>g\<close> takes every
  overlap DoF of a locally owned cell to the native DoF at the same place: the record of
  the native cell of an overlap cell lists the images of the overlap cell's DoFs.\<close>

definition same_numbering ::
  "(global_dof_index \<Rightarrow> global_dof_index) \<Rightarrow> overlap_dh_cell list \<Rightarrow>
   (subdomain_id \<times> native_dh_cell list) list \<Rightarrow> bool" where
  "same_numbering g cells replies \<longleftrightarrow>
     list_all (\<lambda>overlap_cell.
        list_all (\<lambda>(rank, native_cells).
           list_all (\<lambda>native_cell.
              n_active_cell_index native_cell = o_native_active_cell_index overlap_cell \<longrightarrow>
              n_dof_indices native_cell = map g (o_dof_indices overlap_cell))
             native_cells) replies)
       (filter o_is_locally_owned cells)"

definition packed_replies ::
  "(subdomain_id \<times> native_dh_cell list) list \<Rightarrow> (subdomain_id \<times> global_dof_index list) list" where
  "packed_replies replies = map (\<lambda>(rank, cells). (rank, concat (map packed_record cells))) replies"

definition reply_ok :: "overlap_dh_cell list \<Rightarrow> native_dh_cell \<Rightarrow> bool" where
  "reply_ok sorted_cells cell =
     (case std_lower_bound sorted_cells (n_active_cell_index cell) of
        None \<Rightarrow> False
      | Some overlap_dh_cell \<Rightarrow>
          o_native_active_cell_index overlap_dh_cell = n_active_cell_index cell \<and>
          length (n_dof_indices cell) \<le> length (o_dof_indices overlap_dh_cell))"

definition replies_ok ::
  "overlap_dh_cell list \<Rightarrow> (subdomain_id \<times> native_dh_cell list) list \<Rightarrow> bool" where
  "replies_ok sorted_cells replies =
     list_all (\<lambda>(rank, cells). list_all (reply_ok sorted_cells) cells) replies"

definition cell_pairs ::
  "overlap_dh_cell list \<Rightarrow> native_dh_cell \<Rightarrow> (global_dof_index \<times> global_dof_index) list" where
  "cell_pairs sorted_cells cell =
     (case std_lower_bound sorted_cells (n_active_cell_index cell) of
        None \<Rightarrow> []
      | Some overlap_dh_cell \<Rightarrow> zip (o_dof_indices overlap_dh_cell) (n_dof_indices cell))"

definition collected_pairs ::
  "overlap_dh_cell list \<Rightarrow> (subdomain_id \<times> native_dh_cell list) list \<Rightarrow>
   (global_dof_index \<times> global_dof_index) list" where
  "collected_pairs sorted_cells replies =
     concat (map (\<lambda>(rank, cells). concat (map (cell_pairs sorted_cells) cells)) replies)"


subsection \<open>The whole function\<close>

text \<open>
  What the function reads from its arguments: whether each \<open>DoFHandler\<close> is attached to
  the triangulation it should be (the two assertions on entry), the names of the two
  finite elements, and the active cells of both handlers.
\<close>

record dof_translation_input =
  overlap_dh_on_overlap_tria :: bool
  native_dh_on_native_tria :: bool
  native_fe_name :: string
  overlap_fe_name :: string
  overlap_active_cells :: "overlap_dh_cell list"
  native_active_cells :: "native_dh_cell list"

text \<open>The loop of step 3 over the received requests; \<open>dofs_on_native[requested_rank]\<close>
  comes into being with the first \<open>push_back\<close>.\<close>

fun pack_all ::
  "native_dh_cell list \<Rightarrow> (subdomain_id \<times> nat list) list \<Rightarrow>
   (subdomain_id \<rightharpoonup> global_dof_index list) \<Rightarrow>
   error + (subdomain_id \<rightharpoonup> global_dof_index list)" where
  "pack_all cells [] dofs_on_native = Inr dofs_on_native"
| "pack_all cells ((requested_rank, active_cell_indices) # requests) dofs_on_native =
     (case pack_requested cells active_cell_indices of
        Inl e \<Rightarrow> Inl e
      | Inr out \<Rightarrow>
          pack_all cells requests
            (if out = [] then dofs_on_native else dofs_on_native(requested_rank \<mapsto> out)))"

text \<open>
  \<open>Utilities::MPI::some_to_some\<close> is the library's personalized exchange: it takes what this
  process sends to each rank and returns what it received from each rank, ordered by rank.
  What arrives depends on the other processes, so the two calls are parameters. So are the
  two calls of \<open>std::sort\<close>: the one of the pairs compares first components only and may
  leave pairs with the same overlap DoF in any order. The first component of the result counts the
  exchanges made before the function returned or stopped at a failed assertion.
\<close>

definition compute_overlap_to_native_dof_translation ::
  "(overlap_dh_cell list \<Rightarrow> overlap_dh_cell list) \<Rightarrow>
   ((global_dof_index \<times> global_dof_index) list \<Rightarrow> (global_dof_index \<times> global_dof_index) list) \<Rightarrow>
   ((subdomain_id \<rightharpoonup> nat list) \<Rightarrow> (subdomain_id \<times> nat list) list) \<Rightarrow>
   ((subdomain_id \<rightharpoonup> global_dof_index list) \<Rightarrow> (subdomain_id \<times> global_dof_index list) list) \<Rightarrow>
   dof_translation_input \<Rightarrow> nat \<times> (error + global_dof_index list)" where
  "compute_overlap_to_native_dof_translation std_sort_cells std_sort_pairs
       some_to_some_cells some_to_some_dofs inp =
     (if \<not> overlap_dh_on_overlap_tria inp
      then (0, Inl (ExcMessage ''The overlap DoFHandler should use the overlap tria''))
      else if \<not> native_dh_on_native_tria inp
      then (0, Inl (ExcMessage ''The native DoFHandler should use the native tria''))
      else
        let requested_native_active_cell_indices =
              some_to_some_cells (native_active_cell_ids_on_overlap (overlap_active_cells inp))
        in if native_fe_name inp \<noteq> overlap_fe_name inp
           then (1, Inl (ExcMessage ''dof handlers should use the same FiniteElement''))
           else (case pack_all (native_active_cells inp) requested_native_active_cell_indices
                        Map.empty of
                   Inl e \<Rightarrow> (1, Inl e)
                 | Inr dofs_on_native \<Rightarrow>
                     (case unpack_all (overlap_dh_cells std_sort_cells (overlap_active_cells inp))
                             (some_to_some_dofs dofs_on_native) [] of
                        Inl e \<Rightarrow> (2, Inl e)
                      | Inr overlap_to_native \<Rightarrow>
                          (2, Inr (native_indices_of (std_sort_pairs overlap_to_native))))))"


section \<open>Scatter (transfer/scatter.h)\<close>

text \<open>
  The two operations of a transfer back to the native vector: overwrite or accumulate.
  Vector entries are taken in a commutative semiring, that is with exact arithmetic.
\<close>

datatype VectorOperation = insert_values | add_values

text \<open>
  Modelled from the spec: the class \<open>Scatter\<close> (transfer/scatter.cc is not among the
  sources). It is built from the array \<open>overlap_to_native\<close>; the transfer from the native
  vector fills overlap entry \<open>i\<close> with native entry \<open>overlap_to_native[i]\<close>, which is also
  what the loop of fiddle.cc (lines 122 to 125) does without the class.
\<close>

definition global_to_overlap :: "nat list \<Rightarrow> 'a list \<Rightarrow> 'a list" where
  "global_to_overlap overlap_to_native native =
     map (\<lambda>native_dof. native ! native_dof) overlap_to_native"

text \<open>
  Modelled from the spec: the transfer from an overlap buffer to the native vector. Every
  overlap entry \<open>i\<close> is delivered to native entry \<open>overlap_to_native[i]\<close>, where it
  replaces the value or is added to it.
\<close>

definition deliver :: "VectorOperation \<Rightarrow> 'a::semiring_1 list \<Rightarrow> nat \<times> 'a \<Rightarrow> 'a list" where
  "deliver operation native entry =
     (case entry of (native_dof, x) \<Rightarrow>
        native[native_dof := (case operation of
                                insert_values \<Rightarrow> x
                              | add_values \<Rightarrow> native ! native_dof + x)])"

fun deliver_all :: "VectorOperation \<Rightarrow> (nat \<times> 'a::semiring_1) list \<Rightarrow> 'a list \<Rightarrow> 'a list" where
  "deliver_all operation [] native = native"
| "deliver_all operation (entry # entries) native =
     deliver_all operation entries (deliver operation native entry)"

definition overlap_to_global ::
  "VectorOperation \<Rightarrow> nat list \<Rightarrow> 'a::semiring_1 list \<Rightarrow> 'a list \<Rightarrow> 'a list" where
  "overlap_to_global operation overlap_to_native overlap native =
     deliver_all operation (zip overlap_to_native overlap) native"

text \<open>
  Modelled from the spec: the transfers of all processes into one native vector. Each
  process has its own array \<open>overlap_to_native\<close> and its own overlap buffer.
\<close>

fun overlap_to_global_all ::
  "VectorOperation \<Rightarrow> (nat list \<times> 'a::semiring_1 list) list \<Rightarrow> 'a list \<Rightarrow> 'a list" where
  "overlap_to_global_all operation [] native = native"
| "overlap_to_global_all operation ((overlap_to_native, overlap) # processes) native =
     overlap_to_global_all operation processes
       (overlap_to_global operation overlap_to_native overlap native)"

text \<open>The entries that all processes together deliver to the native vector.\<close>

definition contributions :: "(nat list \<times> 'a list) list \<Rightarrow> (nat \<times> 'a) list" where
  "contributions processes = concat (map (\<lambda>(overlap_to_native, overlap). zip overlap_to_native overlap) processes)"

text \<open>Every overlap entry delivered to native entry \<open>j\<close> holds the value \<open>x\<close>.\<close>

definition contributors_hold :: "(nat list \<times> 'a list) list \<Rightarrow> nat \<Rightarrow> 'a \<Rightarrow> bool" where
  "contributors_hold processes j x \<longleftrightarrow>
     (\<forall>e\<in>set (contributions processes). fst e = j \<longrightarrow> snd e = x)"

text \<open>The number of overlap entries delivered to native entry \<open>j\<close>.\<close>

definition n_contributors :: "(nat list \<times> 'a list) list \<Rightarrow> nat \<Rightarrow> nat" where
  "n_contributors processes j = length (filter (\<lambda>e. fst e = j) (contributions processes))"


text \<open>The processes' buffers after the transfer from the native vector.\<close>

definition scattered :: "nat list list \<Rightarrow> 'a list \<Rightarrow> (nat list \<times> 'a list) list" where
  "scattered maps native = map (\<lambda>overlap_to_native. (overlap_to_native, global_to_overlap overlap_to_native native)) maps"


section \<open>Transactions (interaction/interaction\_base.h)\<close>

datatype State = Start | Intermediate | Finish | Done

datatype Operation = Interpolation | Spreading

text \<open>The two members of \<open>Transaction\<close> that are used for consistency checking.\<close>

record Transaction =
  next_state :: State
  operation :: Operation

text \<open>
  Modelled from the spec: the phases of \<open>InteractionBase\<close> (interaction/interaction\_base.cc
  is not among the sources; the header declares them). A transaction passes through
  \<open>Start\<close>, \<open>Intermediate\<close>, \<open>Finish\<close>, \<open>Done\<close> with its operation fixed when it is
  created; a phase called on a transaction of the other operation or in another state is a
  failed assertion.
\<close>

definition begin_transaction :: "Operation \<Rightarrow> Transaction" where
  "begin_transaction op = \<lparr>next_state = Start, operation = op\<rparr>"

definition phase :: "Operation \<Rightarrow> State \<Rightarrow> State \<Rightarrow> Transaction \<Rightarrow> error + Transaction" where
  "phase op expected following transaction =
     (if operation transaction \<noteq> op
      then Inl (ExcMessage ''Transaction operation does not match the call'')
      else if next_state transaction \<noteq> expected
      then Inl (ExcMessage ''Transaction state does not match the call'')
      else Inr (transaction\<lparr>next_state := following\<rparr>))"

definition compute_projection_rhs_start :: "Transaction \<Rightarrow> error + Transaction" where
  "compute_projection_rhs_start = phase Interpolation Start Intermediate"

definition compute_projection_rhs_intermediate :: "Transaction \<Rightarrow> error + Transaction" where
  "compute_projection_rhs_intermediate = phase Interpolation Intermediate Finish"

definition compute_projection_rhs_finish :: "Transaction \<Rightarrow> error + Transaction" where
  "compute_projection_rhs_finish = phase Interpolation Finish Done"

definition compute_spread_start :: "Transaction \<Rightarrow> error + Transaction" where
  "compute_spread_start = phase Spreading Start Intermediate"

definition compute_spread_intermediate :: "Transaction \<Rightarrow> error + Transaction" where
  "compute_spread_intermediate = phase Spreading Intermediate Finish"

definition compute_spread_finish :: "Transaction \<Rightarrow> error + Transaction" where
  "compute_spread_finish = phase Spreading Finish Done"

text \<open>Running phases one after the other; the first failure ends the run.\<close>

fun run_phases :: "(Transaction \<Rightarrow> error + Transaction) list \<Rightarrow> Transaction \<Rightarrow> error + Transaction" where
  "run_phases [] transaction = Inr transaction"
| "run_phases (f # fs) transaction =
     (case f transaction of Inl e \<Rightarrow> Inl e | Inr transaction' \<Rightarrow> run_phases fs transaction')"


section \<open>Overlap triangulation (grid/overlap\_tria.cc)\<close>

text \<open>
  The native triangulation and the overlap triangulation are triangulations of the
  library: hierarchies of cells in which a refined cell has children on the next level.
  A triangulation is modelled as the list of its coarse cells, each with its children.
  The geometry of a cell (its vertices) is a value of a type \<open>'g\<close>. What the code asks
  the library about geometry is a parameter: the cell's bounding box, the coordinates of
  its vertices, its barycenter, and the geometry and the faces of child \<open>child_n\<close> that
  \<open>execute_coarsening_and_refinement\<close> creates for a flagged cell. Indices are natural
  numbers: a slot of the table of native cells is taken to fit the \<open>unsigned int\<close> it is
  stored in.

  A face of a cell carries what \<open>extract_subcell\<close> reads from it: its manifold id and its
  boundary id, and the same two ids for each of its lines (read when \<open>dim\<close> is 3).
\<close>

record face =
  face_manifold_id :: nat
  face_boundary_id :: nat
  face_lines :: "(nat \<times> nat) list"

record 'g library =
  lib_dim :: nat
  lib_spacedim :: nat
  bounding_box :: "'g \<Rightarrow> real BoundingBox"
  child_geometry :: "'g \<Rightarrow> nat \<Rightarrow> 'g"
  child_faces :: "face list \<Rightarrow> nat \<Rightarrow> face list"
  vertices :: "'g \<Rightarrow> real list list"
  barycenter :: "'g \<Rightarrow> real list"

text \<open>The test \<open>(a->barycenter() - b->barycenter()).norm() < 1e-12\<close> of the second loop:
  \<open>norm\<close> is the Euclidean norm of the difference.\<close>

definition l2_norm :: "real list \<Rightarrow> real" where
  "l2_norm v = sqrt (sum_list (map (\<lambda>x. x * x) v))"

definition barycenters_agree :: "'g library \<Rightarrow> 'g \<Rightarrow> 'g \<Rightarrow> bool" where
  "barycenters_agree L a b \<longleftrightarrow>
     l2_norm (map (\<lambda>(x, y). x - y) (zip (barycenter L a) (barycenter L b))) < 1 / 10 ^ 12"


text \<open>\<open>numbers::artificial_subdomain_id\<close>, \<open>numbers::flat_manifold_id\<close> and
  \<open>numbers::internal_face_boundary_id\<close> of the library.\<close>

definition artificial_subdomain_id :: subdomain_id where
  "artificial_subdomain_id = 2 ^ 32 - 2"

definition flat_manifold_id :: nat where
  "flat_manifold_id = 2 ^ 32 - 1"

definition internal_face_boundary_id :: nat where
  "internal_face_boundary_id = 2 ^ 32 - 1"

subsection \<open>The native triangulation\<close>

record 'g native_cell_data =
  nc_geometry :: 'g
  nc_faces :: "face list"
  nc_material_id :: nat
  nc_manifold_id :: nat
  nc_subdomain_id :: subdomain_id
  nc_active_cell_index :: nat
  nc_isotropic :: bool

datatype 'g native_cell =
  NativeCell (nc_data: "'g native_cell_data") (nc_children: "'g native_cell list")

text \<open>\<open>cell_iterators_on_level\<close>, \<open>active_cell_iterators_on_level\<close> and \<open>n_levels\<close>.\<close>

fun cells_on_level :: "nat \<Rightarrow> 'g native_cell list \<Rightarrow> 'g native_cell list" where
  "cells_on_level 0 cells = cells"
| "cells_on_level (Suc level_n) cells = cells_on_level level_n (concat (map nc_children cells))"

definition active_cells_on_level :: "nat \<Rightarrow> 'g native_cell list \<Rightarrow> 'g native_cell list" where
  "active_cells_on_level level_n cells =
     filter (\<lambda>cell. nc_children cell = []) (cells_on_level level_n cells)"

fun native_depth :: "'g native_cell \<Rightarrow> nat"
  and native_depths :: "'g native_cell list \<Rightarrow> nat" where
  "native_depth (NativeCell d children) = Suc (native_depths children)"
| "native_depths [] = 0"
| "native_depths (cell # cells) = max (native_depth cell) (native_depths cells)"

definition n_levels :: "'g native_cell list \<Rightarrow> nat" where
  "n_levels native_tria = native_depths native_tria"

subsection \<open>The overlap triangulation\<close>

record 'g overlap_cell_data =
  oc_geometry :: 'g
  oc_faces :: "face list"
  oc_user_index :: nat
  oc_material_id :: nat
  oc_manifold_id :: nat
  oc_subdomain_id :: subdomain_id
  oc_refine_flag :: bool

datatype 'g overlap_cell =
  OverlapCell (oc_data: "'g overlap_cell_data") (oc_children: "'g overlap_cell list")

record 'g OverlapTriangulation =
  native_cells :: "'g native_cell list"
  coarse_cells :: "'g overlap_cell list"
  cell_iterators_in_active_native_order :: "'g overlap_cell list"

text \<open>The cells on one level, all cells in the order of the levels, and the active ones.\<close>

fun cells_at :: "nat \<Rightarrow> 'g overlap_cell list \<Rightarrow> 'g overlap_cell list" where
  "cells_at 0 cells = cells"
| "cells_at (Suc level_n) cells = cells_at level_n (concat (map oc_children cells))"

fun overlap_depth :: "'g overlap_cell \<Rightarrow> nat"
  and overlap_depths :: "'g overlap_cell list \<Rightarrow> nat" where
  "overlap_depth (OverlapCell d children) = Suc (overlap_depths children)"
| "overlap_depths [] = 0"
| "overlap_depths (cell # cells) = max (overlap_depth cell) (overlap_depths cells)"

definition cell_iterators :: "'g overlap_cell list \<Rightarrow> 'g overlap_cell list" where
  "cell_iterators cells =
     concat (map (\<lambda>level_n. cells_at level_n cells) [0..<overlap_depths cells])"

definition active_cell_iterators :: "'g overlap_cell list \<Rightarrow> 'g overlap_cell list" where
  "active_cell_iterators cells = filter (\<lambda>cell. oc_children cell = []) (cell_iterators cells)"

text \<open>\<open>cell->set_...\<close> changes the data of a cell and leaves its children.\<close>

definition set_data ::
  "('g overlap_cell_data \<Rightarrow> 'g overlap_cell_data) \<Rightarrow> 'g overlap_cell \<Rightarrow> 'g overlap_cell" where
  "set_data f cell = OverlapCell (f (oc_data cell)) (oc_children cell)"

text \<open>
  Modelled from the spec: \<open>add_native_cell\<close> and \<open>get_native_cell\<close> are defined in
  grid/overlap\_tria.h, which is not among the sources. \<open>add_native_cell\<close> gives the cell a
  fresh slot at the end of the table \<open>native_cells\<close> and returns the slot;
  \<open>get_native_cell\<close> reads the slot that the overlap cell has in its user index.
\<close>

definition add_native_cell ::
  "'g native_cell list \<Rightarrow> 'g native_cell \<Rightarrow> 'g native_cell list \<times> nat" where
  "add_native_cell table cell = (table @ [cell], length table)"

definition get_native_cell ::
  "'g native_cell list \<Rightarrow> 'g overlap_cell \<Rightarrow> error + 'g native_cell" where
  "get_native_cell table cell =
     (if oc_user_index (oc_data cell) < length table
      then Inr (table ! oc_user_index (oc_data cell))
      else Inl ExcIndexRange)"

text \<open>The lambda \<open>intersects_patches\<close>, for the geometry of a native or an overlap cell.\<close>

definition intersects_patches :: "'g library \<Rightarrow> real BoundingBox list \<Rightarrow> 'g \<Rightarrow> bool" where
  "intersects_patches L patch_bboxes g =
     list_ex (\<lambda>patch_bbox. intersects (lib_spacedim L) (bounding_box L g) patch_bbox)
       patch_bboxes"

text \<open>
  The search for the coarsest level with an active cell that intersects the patches;
  \<open>None\<close> is \<open>numbers::invalid_unsigned_int\<close>, the value left when no level is found.
\<close>

function find_coarsest_level ::
  "'g library \<Rightarrow> real BoundingBox list \<Rightarrow> 'g native_cell list \<Rightarrow> nat \<Rightarrow> nat option" where
  "find_coarsest_level L patch_bboxes native_tria level_n =
     (if level_n < n_levels native_tria
      then (if list_ex (\<lambda>cell. intersects_patches L patch_bboxes (nc_geometry (nc_data cell)))
                 (active_cells_on_level level_n native_tria)
            then Some level_n
            else find_coarsest_level L patch_bboxes native_tria (Suc level_n))
      else None)"
  by pat_completeness auto
termination
  by (relation "measure (\<lambda>(L, patch_bboxes, native_tria, level_n). n_levels native_tria - level_n)")
    auto

declare find_coarsest_level.simps [simp del]

text \<open>
  The loop over the cells of the coarsest level: a cell that intersects the patches gets a
  slot, which travels in the material id of its \<open>CellData\<close>. With the \<open>CellData\<close> go the
  entries that the loop pushes to \<open>subcell_data\<close> for the faces of the cell: for \<open>dim\<close> 2
  one line per face with the ids of the face, for \<open>dim\<close> 3 one quad per face and one line
  per line of the face, for any other \<open>dim\<close> nothing.
\<close>

record 'g CellData =
  cd_vertices :: 'g
  cd_material_id :: nat
  cd_subcells :: "face list"

definition extract_subcells :: "'g library \<Rightarrow> face list \<Rightarrow> face list" where
  "extract_subcells L faces =
     (if lib_dim L = 2 then map (\<lambda>f. f\<lparr>face_lines := []\<rparr>) faces
      else if lib_dim L = 3 then faces
      else [])"

fun collect_cells ::
  "'g library \<Rightarrow> real BoundingBox list \<Rightarrow> 'g native_cell list \<Rightarrow>
   'g native_cell list \<Rightarrow> 'g CellData list \<Rightarrow> 'g native_cell list \<times> 'g CellData list" where
  "collect_cells L patch_bboxes [] table cells = (table, cells)"
| "collect_cells L patch_bboxes (cell # rest) table cells =
     (if intersects_patches L patch_bboxes (nc_geometry (nc_data cell))
      then (case add_native_cell table cell of
              (table', slot) \<Rightarrow>
                collect_cells L patch_bboxes rest table'
                  (cells @ [\<lparr>cd_vertices = nc_geometry (nc_data cell), cd_material_id = slot,
                             cd_subcells = extract_subcells L (nc_faces (nc_data cell))\<rparr>]))
      else collect_cells L patch_bboxes rest table cells)"

text \<open>\<open>create_triangulation\<close> of the library: one coarse cell for every \<open>CellData\<close>, with
  its vertices and its material id; its faces and their lines get the ids that
  \<open>subcell_data\<close> lists for them; the subdomain id of a new cell is 0.\<close>

definition create_triangulation :: "'g CellData list \<Rightarrow> 'g overlap_cell list" where
  "create_triangulation cells =
     map (\<lambda>cell_data.
            OverlapCell \<lparr>oc_geometry = cd_vertices cell_data,
                         oc_faces = cd_subcells cell_data, oc_user_index = 0,
                         oc_material_id = cd_material_id cell_data,
                         oc_manifold_id = flat_manifold_id, oc_subdomain_id = 0,
                         oc_refine_flag = False\<rparr> [])
         cells"

text \<open>A loop over cells that threads a state and stops at the first failed assertion.\<close>

fun for_cells ::
  "('s \<Rightarrow> 'a \<Rightarrow> error + ('b \<times> 's)) \<Rightarrow> 's \<Rightarrow> 'a list \<Rightarrow> error + ('b list \<times> 's)" where
  "for_cells body s [] = Inr ([], s)"
| "for_cells body s (cell # cells) =
     (case body s cell of
        Inl e \<Rightarrow> Inl e
      | Inr (cell', s') \<Rightarrow>
          (case for_cells body s' cells of
             Inl e \<Rightarrow> Inl e
           | Inr (cells', s'') \<Rightarrow> Inr (cell' # cells', s'')))"

text \<open>The body of a loop over \<open>cell_iterators_on_level(level_n)\<close>, applied inside a coarse
  cell: on level 0 to the cell itself, otherwise on the level below in its children.\<close>

primrec on_level ::
  "nat \<Rightarrow> ('s \<Rightarrow> 'g overlap_cell \<Rightarrow> error + ('g overlap_cell \<times> 's)) \<Rightarrow>
   's \<Rightarrow> 'g overlap_cell \<Rightarrow> error + ('g overlap_cell \<times> 's)" where
  "on_level 0 body = body"
| "on_level (Suc level_n) body =
     (\<lambda>s cell. case for_cells (on_level level_n body) s (oc_children cell) of
                  Inl e \<Rightarrow> Inl e
                | Inr (children, s') \<Rightarrow> Inr (OverlapCell (oc_data cell) children, s'))"

definition for_cells_on_level ::
  "nat \<Rightarrow> ('s \<Rightarrow> 'g overlap_cell \<Rightarrow> error + ('g overlap_cell \<times> 's)) \<Rightarrow>
   's \<Rightarrow> 'g overlap_cell list \<Rightarrow> error + ('g overlap_cell list \<times> 's)" where
  "for_cells_on_level level_n body s cells = for_cells (on_level level_n body) s cells"

text \<open>After \<open>create_triangulation\<close>: the material id becomes the user index, and the
  material id of the native cell is copied.\<close>

definition switch_material_id ::
  "'g native_cell list \<Rightarrow> unit \<Rightarrow> 'g overlap_cell \<Rightarrow> error + ('g overlap_cell \<times> unit)" where
  "switch_material_id table u cell =
     (let cell1 = set_data (\<lambda>d. d\<lparr>oc_user_index := oc_material_id d\<rparr>) cell
      in case get_native_cell table cell1 of
           Inl e \<Rightarrow> Inl e
         | Inr native_cell \<Rightarrow>
             Inr (set_data (\<lambda>d. d\<lparr>oc_material_id := nc_material_id (nc_data native_cell)\<rparr>) cell1,
                  ()))"

text \<open>
  The first loop of a level: a cell that intersects the patches gets subdomain id 0 and,
  when its native cell has children, the refine flag; any other cell gets the artificial
  subdomain id. The state is the variable \<open>refined\<close>.
\<close>

definition mark_cell ::
  "'g library \<Rightarrow> real BoundingBox list \<Rightarrow> 'g native_cell list \<Rightarrow>
   bool \<Rightarrow> 'g overlap_cell \<Rightarrow> error + ('g overlap_cell \<times> bool)" where
  "mark_cell L patch_bboxes table refined cell =
     (if intersects_patches L patch_bboxes (oc_geometry (oc_data cell))
      then (case get_native_cell table cell of
              Inl e \<Rightarrow> Inl e
            | Inr native_cell \<Rightarrow>
                let cell1 = set_data (\<lambda>d. d\<lparr>oc_subdomain_id := 0\<rparr>) cell
                in if nc_children native_cell \<noteq> []
                   then (if \<not> nc_isotropic (nc_data native_cell) then Inl ExcNotImplemented
                         else Inr (set_data (\<lambda>d. d\<lparr>oc_refine_flag := True\<rparr>) cell1, True))
                   else Inr (cell1, refined))
      else Inr (set_data (\<lambda>d. d\<lparr>oc_subdomain_id := artificial_subdomain_id\<rparr>) cell, refined))"

text \<open>
  \<open>execute_coarsening_and_refinement\<close> of the library: every active cell with the refine
  flag gets \<open>2 ^ dim\<close> children, which inherit its material, manifold and subdomain id
  and get their vertices and their faces from the library; the flag is cleared. The model refines the flagged cells only (the library may refine
  further cells to keep neighbours within one level of each other).
\<close>

definition new_child :: "'g library \<Rightarrow> 'g overlap_cell_data \<Rightarrow> nat \<Rightarrow> 'g overlap_cell" where
  "new_child L d child_n =
     OverlapCell \<lparr>oc_geometry = child_geometry L (oc_geometry d) child_n,
                  oc_faces = child_faces L (oc_faces d) child_n, oc_user_index = 0,
                  oc_material_id = oc_material_id d, oc_manifold_id = oc_manifold_id d,
                  oc_subdomain_id = oc_subdomain_id d, oc_refine_flag = False\<rparr> []"

fun execute_refinement :: "'g library \<Rightarrow> 'g overlap_cell \<Rightarrow> 'g overlap_cell" where
  "execute_refinement L (OverlapCell d children) =
     (if children = []
      then (if oc_refine_flag d
            then OverlapCell (d\<lparr>oc_refine_flag := False\<rparr>)
                   (map (new_child L d) [0..<2 ^ lib_dim L])
            else OverlapCell d [])
      else OverlapCell d (map (execute_refinement L) children))"

definition execute_coarsening_and_refinement ::
  "'g library \<Rightarrow> 'g overlap_cell list \<Rightarrow> 'g overlap_cell list" where
  "execute_coarsening_and_refinement L cells = map (execute_refinement L) cells"

text \<open>
  The second loop of a level, for a cell with children: child \<open>child_n\<close> is paired with
  child \<open>child_n\<close> of the native cell, the barycenters are compared, the child gets a
  slot and subdomain id 0, and the material id and the manifold id of an active native
  child are copied. The faces of the child stay as the refinement made them.
\<close>

fun setup_children ::
  "'g library \<Rightarrow> 'g native_cell \<Rightarrow> nat \<Rightarrow> 'g native_cell list \<Rightarrow> 'g overlap_cell list \<Rightarrow>
   error + ('g overlap_cell list \<times> 'g native_cell list)" where
  "setup_children L native_cell child_n table [] = Inr ([], table)"
| "setup_children L native_cell child_n table (child # children) =
     (if length (nc_children native_cell) \<le> child_n then Inl ExcIndexRange
      else
        let native_child = nc_children native_cell ! child_n
        in if \<not> barycenters_agree L (oc_geometry (oc_data child))
                   (nc_geometry (nc_data native_child))
           then Inl ExcInternalError
           else (case add_native_cell table native_child of
                   (table', slot) \<Rightarrow>
                     let child1 = set_data (\<lambda>d. d\<lparr>oc_user_index := slot, oc_subdomain_id := 0\<rparr>)
                                    child;
                         child2 = (if nc_children native_child = []
                                   then set_data
                                          (\<lambda>d. d\<lparr>oc_material_id :=
                                                    nc_material_id (nc_data native_child),
                                                  oc_manifold_id :=
                                                    nc_manifold_id (nc_data native_child)\<rparr>)
                                          child1
                                   else child1)
                     in (case setup_children L native_cell (Suc child_n) table' children of
                           Inl e \<Rightarrow> Inl e
                         | Inr (children', table'') \<Rightarrow> Inr (child2 # children', table''))))"

definition setup_cell ::
  "'g library \<Rightarrow> 'g native_cell list \<Rightarrow> 'g overlap_cell \<Rightarrow>
   error + ('g overlap_cell \<times> 'g native_cell list)" where
  "setup_cell L table cell =
     (if oc_children cell \<noteq> []
      then (case get_native_cell table cell of
              Inl e \<Rightarrow> Inl e
            | Inr native_cell \<Rightarrow>
                (case setup_children L native_cell 0 table (oc_children cell) of
                   Inl e \<Rightarrow> Inl e
                 | Inr (children, table') \<Rightarrow> Inr (OverlapCell (oc_data cell) children, table')))
      else Inr (cell, table))"

text \<open>The loop over the levels; \<open>n\<close> is \<open>native_tria->n_levels() - coarsest_level_n\<close>. A
  level beyond the last one of the overlap triangulation has no cells.\<close>

function level_loop ::
  "'g library \<Rightarrow> real BoundingBox list \<Rightarrow> nat \<Rightarrow> nat \<Rightarrow> 'g native_cell list \<Rightarrow>
   'g overlap_cell list \<Rightarrow> error + ('g overlap_cell list \<times> 'g native_cell list)" where
  "level_loop L patch_bboxes n level_n table cells =
     (if level_n < n
      then (case for_cells_on_level level_n (mark_cell L patch_bboxes table) False cells of
              Inl e \<Rightarrow> Inl e
            | Inr (cells1, refined) \<Rightarrow>
                if refined
                then (case for_cells_on_level level_n (setup_cell L) table
                             (execute_coarsening_and_refinement L cells1) of
                        Inl e \<Rightarrow> Inl e
                      | Inr (cells2, table') \<Rightarrow>
                          level_loop L patch_bboxes n (Suc level_n) table' cells2)
                else level_loop L patch_bboxes n (Suc level_n) table cells1)
      else Inr (cells, table))"
  by pat_completeness auto
termination
  by (relation "measure (\<lambda>(L, patch_bboxes, n, level_n, table, cells). n - level_n)") auto

declare level_loop.simps [simp del]

definition reinit_overlapping_tria ::
  "'g library \<Rightarrow> 'g native_cell list \<Rightarrow> real BoundingBox list \<Rightarrow>
   error + ('g overlap_cell list \<times> 'g native_cell list)" where
  "reinit_overlapping_tria L native_tria patch_bboxes =
     (case find_coarsest_level L patch_bboxes native_tria 0 of
        None \<Rightarrow> Inl ExcInternalError
      | Some coarsest_level_n \<Rightarrow>
          (case collect_cells L patch_bboxes (cells_on_level coarsest_level_n native_tria)
                  [] [] of
             (table, cells) \<Rightarrow>
               (case for_cells_on_level 0 (switch_material_id table) ()
                       (create_triangulation cells) of
                  Inl e \<Rightarrow> Inl e
                | Inr (coarse, u) \<Rightarrow>
                    level_loop L patch_bboxes (n_levels native_tria - coarsest_level_n) 0
                      table coarse)))"

text \<open>
  \<open>locally_owned_subdomain\<close> returns 0; with it the library's \<open>cell->is_locally_owned()\<close>
  compares the subdomain id of the cell.
\<close>

definition locally_owned_subdomain :: subdomain_id where
  "locally_owned_subdomain = 0"

definition is_locally_owned :: "'g overlap_cell \<Rightarrow> bool" where
  "is_locally_owned cell \<longleftrightarrow> oc_subdomain_id (oc_data cell) = locally_owned_subdomain"

text \<open>The key of the sort in \<open>reinit\<close>.\<close>

definition native_active_cell_index :: "'g native_cell list \<Rightarrow> 'g overlap_cell \<Rightarrow> nat" where
  "native_active_cell_index table cell =
     nc_active_cell_index (nc_data (table ! oc_user_index (oc_data cell)))"

text \<open>
  \<open>reinit\<close>: build the triangulation, then cache the active cells whose subdomain id is not
  the artificial one, sorted by the active cell index of their native cells (the key is
  read through \<open>get_native_cell\<close>, which fails for a user index outside the table). The
  sort is the stable insertion sort, one of the results \<open>std::sort\<close> may give.
\<close>

definition reinit ::
  "'g library \<Rightarrow> 'g native_cell list \<Rightarrow> real BoundingBox list \<Rightarrow>
   error + 'g OverlapTriangulation" where
  "reinit L shared_tria patch_bboxes =
     (case reinit_overlapping_tria L shared_tria patch_bboxes of
        Inl e \<Rightarrow> Inl e
      | Inr (cells, table) \<Rightarrow>
          let resident = filter (\<lambda>cell. oc_subdomain_id (oc_data cell) \<noteq> artificial_subdomain_id)
                           (active_cell_iterators cells)
          in if list_all (\<lambda>cell. oc_user_index (oc_data cell) < length table) resident
             then Inr \<lparr>native_cells = table, coarse_cells = cells,
                       cell_iterators_in_active_native_order =
                         sort_key (native_active_cell_index table) resident\<rparr>
             else Inl ExcIndexRange)"


subsection \<open>Invariants of the construction\<close>

text \<open>The native cell in the slot of an overlap cell.\<close>

definition native_of :: "'g native_cell list \<Rightarrow> 'g overlap_cell \<Rightarrow> 'g native_cell" where
  "native_of table cell = table ! oc_user_index (oc_data cell)"

text \<open>
  The link of a cell to its native cell: the slot is in the table, and the barycenters of
  the two cells are within \<open>1e-12\<close> of each other (a cell of the coarsest level has the
  vertices of its native cell, a child has passed the comparison).
\<close>

definition linked :: "'g library \<Rightarrow> 'g native_cell list \<Rightarrow> 'g overlap_cell \<Rightarrow> bool" where
  "linked L table cell \<longleftrightarrow>
     oc_user_index (oc_data cell) < length table \<and>
     barycenters_agree L (oc_geometry (oc_data cell)) (nc_geometry (nc_data (native_of table cell)))"

text \<open>
  A copy of a native cell: the slot is in the table, and the cell has the vertices of its
  native cell and, on its faces, the ids that the loop over the coarsest level has read
  from the faces of the native cell.
\<close>

definition copied :: "'g library \<Rightarrow> 'g native_cell list \<Rightarrow> 'g overlap_cell \<Rightarrow> bool" where
  "copied L table cell \<longleftrightarrow>
     oc_user_index (oc_data cell) < length table \<and>
     oc_geometry (oc_data cell) = nc_geometry (nc_data (native_of table cell)) \<and>
     oc_faces (oc_data cell) = extract_subcells L (nc_faces (nc_data (native_of table cell)))"


text \<open>
  A cell that has its slot but whose level has not been visited yet: it is active and
  unflagged, its native cell spans at most \<open>k\<close> levels, and it has the material id of
  its native cell when that one is active.
\<close>

definition fresh :: "'g library \<Rightarrow> nat \<Rightarrow> 'g native_cell list \<Rightarrow> 'g overlap_cell \<Rightarrow> bool" where
  "fresh L k table cell \<longleftrightarrow>
     oc_children cell = [] \<and> \<not> oc_refine_flag (oc_data cell) \<and> linked L table cell \<and>
     native_depth (native_of table cell) \<le> k \<and>
     (nc_children (native_of table cell) = [] \<longrightarrow>
        oc_material_id (oc_data cell) = nc_material_id (nc_data (native_of table cell)))"

text \<open>A fresh cell after the first loop of its level.\<close>

definition marked ::
  "'g library \<Rightarrow> real BoundingBox list \<Rightarrow> nat \<Rightarrow> 'g native_cell list \<Rightarrow> 'g overlap_cell \<Rightarrow> bool" where
  "marked L patch_bboxes k table cell \<longleftrightarrow>
     oc_children cell = [] \<and> linked L table cell \<and>
     native_depth (native_of table cell) \<le> k \<and>
     (nc_children (native_of table cell) = [] \<longrightarrow>
        oc_material_id (oc_data cell) = nc_material_id (nc_data (native_of table cell))) \<and>
     oc_subdomain_id (oc_data cell) =
       (if intersects_patches L patch_bboxes (oc_geometry (oc_data cell)) then 0
        else artificial_subdomain_id) \<and>
     (oc_refine_flag (oc_data cell) \<longleftrightarrow>
        intersects_patches L patch_bboxes (oc_geometry (oc_data cell)) \<and>
        nc_children (native_of table cell) \<noteq> [])"

text \<open>
  A cell whose level has been visited: its subdomain id records whether it intersects the
  patches, and if it is active and intersects them, its native cell is active and has the
  same material id.
\<close>

definition settled ::
  "'g library \<Rightarrow> real BoundingBox list \<Rightarrow> 'g native_cell list \<Rightarrow> 'g overlap_cell \<Rightarrow> bool" where
  "settled L patch_bboxes table cell \<longleftrightarrow>
     \<not> oc_refine_flag (oc_data cell) \<and> linked L table cell \<and>
     oc_subdomain_id (oc_data cell) =
       (if intersects_patches L patch_bboxes (oc_geometry (oc_data cell)) then 0
        else artificial_subdomain_id) \<and>
     (oc_children cell = [] \<and> intersects_patches L patch_bboxes (oc_geometry (oc_data cell)) \<longrightarrow>
        nc_children (native_of table cell) = [] \<and>
        oc_material_id (oc_data cell) = nc_material_id (nc_data (native_of table cell)))"

text \<open>A settled cell after the refinement, before its children get their slots.\<close>

definition refined_cell ::
  "'g library \<Rightarrow> real BoundingBox list \<Rightarrow> nat \<Rightarrow> 'g native_cell list \<Rightarrow> 'g overlap_cell \<Rightarrow> bool" where
  "refined_cell L patch_bboxes k table cell \<longleftrightarrow>
     settled L patch_bboxes table cell \<and> native_depth (native_of table cell) \<le> k \<and>
     (\<forall>child\<in>set (oc_children cell).
        oc_children child = [] \<and> \<not> oc_refine_flag (oc_data child))"

text \<open>Two cells with the same data that are both active or both refined.\<close>

definition same_shell :: "'g overlap_cell \<Rightarrow> 'g overlap_cell \<Rightarrow> bool" where
  "same_shell cell cell' \<longleftrightarrow>
     oc_data cell = oc_data cell' \<and> (oc_children cell = [] \<longleftrightarrow> oc_children cell' = [])"

text \<open>
  The state at the head of the loop over the levels, for level \<open>level_n\<close> of \<open>n\<close>: the
  levels above are settled, the cells of the level are fresh, and there is no level below.
\<close>

definition level_inv ::
  "'g library \<Rightarrow> real BoundingBox list \<Rightarrow> nat \<Rightarrow> nat \<Rightarrow> 'g native_cell list \<Rightarrow>
   'g overlap_cell list \<Rightarrow> bool" where
  "level_inv L patch_bboxes n level_n table cells \<longleftrightarrow>
     level_n \<le> n \<and>
     (\<forall>d<level_n. \<forall>cell\<in>set (cells_at d cells). settled L patch_bboxes table cell) \<and>
     (\<forall>cell\<in>set (cells_at level_n cells). fresh L (n - level_n) table cell) \<and>
     cells_at (Suc level_n) cells = []"


text \<open>
  A \<open>CellData\<close> of the coarsest level: its material id is a slot of the table, the native
  cell in the slot is one of the cells \<open>S\<close> of that level, and it has its vertices and
  the entries read from its faces.
\<close>

definition seed_ok ::
  "'g library \<Rightarrow> 'g native_cell set \<Rightarrow> 'g native_cell list \<Rightarrow> 'g CellData \<Rightarrow> bool" where
  "seed_ok L S table cell_data \<longleftrightarrow>
     cd_material_id cell_data < length table \<and>
     table ! cd_material_id cell_data \<in> S \<and>
     cd_vertices cell_data = nc_geometry (nc_data (table ! cd_material_id cell_data)) \<and>
     cd_subcells cell_data =
       extract_subcells L (nc_faces (nc_data (table ! cd_material_id cell_data)))"






text \<open>Small examples used to run the definitions.\<close>

definition example_overlap_cells :: "overlap_dh_cell list" where
  "example_overlap_cells =
     [\<lparr>o_is_locally_owned = True, o_native_subdomain_id = 0, o_native_active_cell_index = 5,
       o_dof_indices = [2, 3]\<rparr>,
      \<lparr>o_is_locally_owned = True, o_native_subdomain_id = 1, o_native_active_cell_index = 2,
       o_dof_indices = [0, 1]\<rparr>,
      \<lparr>o_is_locally_owned = False, o_native_subdomain_id = 0, o_native_active_cell_index = 7,
       o_dof_indices = [4, 5]\<rparr>,
      \<lparr>o_is_locally_owned = True, o_native_subdomain_id = 0, o_native_active_cell_index = 3,
       o_dof_indices = [1, 2]\<rparr>]"

definition example_native_cells :: "native_dh_cell list" where
  "example_native_cells =
     [\<lparr>n_active_cell_index = 0, n_dof_indices = [10, 11]\<rparr>,
      \<lparr>n_active_cell_index = 1, n_dof_indices = [11, 12]\<rparr>,
      \<lparr>n_active_cell_index = 2, n_dof_indices = [12, 13]\<rparr>,
      \<lparr>n_active_cell_index = 3, n_dof_indices = [13, 14]\<rparr>]"



text \<open>\<open>some_to_some\<close> on a single process: what rank 0 sends to itself is what it receives.\<close>

definition loopback :: "(subdomain_id \<rightharpoonup> 'a list) \<Rightarrow> (subdomain_id \<times> 'a list) list" where
  "loopback sent = (case sent 0 of None \<Rightarrow> [] | Some xs \<Rightarrow> [(0, xs)])"

text \<open>A run on one process: two locally owned overlap cells over the native cells 2 and 1
  and an artificial one; overlap DoF \<open>d\<close> lies where native DoF \<open>d + 11\<close> does.\<close>

definition single_process_translation :: dof_translation_input where
  "single_process_translation =
     \<lparr>overlap_dh_on_overlap_tria = True, native_dh_on_native_tria = True,
      native_fe_name = ''FE_Q<2>(3)'', overlap_fe_name = ''FE_Q<2>(3)'',
      overlap_active_cells =
        [\<lparr>o_is_locally_owned = True, o_native_subdomain_id = 0,
          o_native_active_cell_index = 2, o_dof_indices = [1, 2]\<rparr>,
         \<lparr>o_is_locally_owned = False, o_native_subdomain_id = 0,
          o_native_active_cell_index = 3, o_dof_indices = [2, 3]\<rparr>,
         \<lparr>o_is_locally_owned = True, o_native_subdomain_id = 0,
          o_native_active_cell_index = 1, o_dof_indices = [0, 1]\<rparr>],
      native_active_cells = example_native_cells\<rparr>"

definition single_process_replies :: "(subdomain_id \<times> native_dh_cell list) list" where
  "single_process_replies =
     [(0, [\<lparr>n_active_cell_index = 1, n_dof_indices = [11, 12]\<rparr>,
           \<lparr>n_active_cell_index = 2, n_dof_indices = [12, 13]\<rparr>])]"

definition nothing_received :: "(subdomain_id \<rightharpoonup> nat list) \<Rightarrow> (subdomain_id \<times> nat list) list" where
  "nothing_received sent = []"

definition example_mismatch :: dof_translation_input where
  "example_mismatch =
     \<lparr>overlap_dh_on_overlap_tria = True, native_dh_on_native_tria = True,
      native_fe_name = ''FE_Q<2>(3)'', overlap_fe_name = ''FE_Q<2>(1)'',
      overlap_active_cells = example_overlap_cells,
      native_active_cells = example_native_cells\<rparr>"


text \<open>
  A one-dimensional instance of the library: a cell is an interval, refinement halves it,
  and barycenters are midpoints; faces carry no data. The native triangulation has the coarse cells
  \<open>[-4, 0]\<close> (active) and \<open>[0, 4]\<close>, refined into \<open>[0, 2]\<close> (active) and \<open>[2, 4]\<close>,
  which is refined into \<open>[2, 3]\<close> and \<open>[3, 4]\<close>.
\<close>

definition interval_library :: "(real \<times> real) library" where
  "interval_library =
     \<lparr>lib_dim = 1, lib_spacedim = 1,
      bounding_box = (\<lambda>g. mk_box [fst g] [snd g]),
      child_geometry = (\<lambda>g child_n. if child_n = 0 then (fst g, (fst g + snd g) / 2)
                                       else ((fst g + snd g) / 2, snd g)),
      child_faces = (\<lambda>faces child_n. []),
      vertices = (\<lambda>g. [ [fst g], [snd g] ]),
      barycenter = (\<lambda>g. [(fst g + snd g) / 2])\<rparr>"

definition interval_cell ::
  "real \<Rightarrow> real \<Rightarrow> nat \<Rightarrow> nat \<Rightarrow> (real \<times> real) native_cell list \<Rightarrow> (real \<times> real) native_cell" where
  "interval_cell a b material index children =
     NativeCell \<lparr>nc_geometry = (a, b), nc_faces = [], nc_material_id = material,
                 nc_manifold_id = 0,
                 nc_subdomain_id = 0, nc_active_cell_index = index, nc_isotropic = True\<rparr>
       children"

definition example_native_tria :: "(real \<times> real) native_cell list" where
  "example_native_tria =
     [interval_cell (-4) 0 7 0 [],
      interval_cell 0 4 8 0
        [interval_cell 0 2 9 1 [],
         interval_cell 2 4 8 0 [interval_cell 2 3 5 2 [], interval_cell 3 4 6 3 [] ]] ]"

definition example_patch_bboxes :: "real BoundingBox list" where
  "example_patch_bboxes = [mk_box [-1] [1] ]"


text \<open>What \<open>reinit_overlapping_tria\<close> builds for the example and the patch \<open>[-1, 1]\<close>.\<close>

definition overlap_interval ::
  "real \<Rightarrow> real \<Rightarrow> nat \<Rightarrow> nat \<Rightarrow> nat \<Rightarrow> subdomain_id \<Rightarrow> (real \<times> real) overlap_cell list \<Rightarrow>
   (real \<times> real) overlap_cell" where
  "overlap_interval a b user_index material manifold subdomain children =
     OverlapCell \<lparr>oc_geometry = (a, b), oc_faces = [], oc_user_index = user_index,
                  oc_material_id = material,
                  oc_manifold_id = manifold, oc_subdomain_id = subdomain,
                  oc_refine_flag = False\<rparr> children"

definition example_coarse_cells :: "(real \<times> real) overlap_cell list" where
  "example_coarse_cells =
     [overlap_interval (-4) 0 0 7 flat_manifold_id 0 [],
      overlap_interval 0 4 1 8 flat_manifold_id 0
        [overlap_interval 0 2 2 9 0 0 [],
         overlap_interval 2 4 3 8 flat_manifold_id artificial_subdomain_id [] ]]"

definition example_table :: "(real \<times> real) native_cell list" where
  "example_table =
     example_native_tria @
     [interval_cell 0 2 9 1 [],
      interval_cell 2 4 8 0 [interval_cell 2 3 5 2 [], interval_cell 3 4 6 3 [] ]]"


definition example_overlap_tria :: "(real \<times> real) OverlapTriangulation" where
  "example_overlap_tria =
     \<lparr>native_cells = example_table, coarse_cells = example_coarse_cells,
      cell_iterators_in_active_native_order =
        [overlap_interval (-4) 0 0 7 flat_manifold_id 0 [],
         overlap_interval 0 2 2 9 0 0 [] ]\<rparr>"


text \<open>
  A two-dimensional instance of the library: a cell is a quadrilateral given by its four
  vertices in the order of the library (lower left, lower right, upper left, upper right),
  and its faces are the left, right, bottom and top line. Refinement with the flat manifold
  puts the new vertices at the midpoints of the lines and at the mean of the four vertices.
  The children of a cell inherit the ids of the parent's faces they lie on; a new line
  inside the cell is an interior face. The barycenter is the mean of the vertices, which is
  the barycenter of every parallelogram.
\<close>

type_synonym point = "real \<times> real"
type_synonym quad = "point \<times> point \<times> point \<times> point"

fun quad_bounding_box :: "quad \<Rightarrow> real BoundingBox" where
  "quad_bounding_box ((ax, ay), (bx, by), (cx, cy), (dx, dy)) =
     mk_box [min (min ax bx) (min cx dx), min (min ay by) (min cy dy)]
            [max (max ax bx) (max cx dx), max (max ay by) (max cy dy)]"

fun quad_vertices :: "quad \<Rightarrow> real list list" where
  "quad_vertices ((ax, ay), (bx, by), (cx, cy), (dx, dy)) =
     [ [ax, ay], [bx, by], [cx, cy], [dx, dy] ]"

fun quad_barycenter :: "quad \<Rightarrow> real list" where
  "quad_barycenter ((ax, ay), (bx, by), (cx, cy), (dx, dy)) =
     [(ax + bx + cx + dx) / 4, (ay + by + cy + dy) / 4]"

fun quad_child :: "quad \<Rightarrow> nat \<Rightarrow> quad" where
  "quad_child ((ax, ay), (bx, by), (cx, cy), (dx, dy)) child_n =
     (let bottom = ((ax + bx) / 2, (ay + by) / 2);
          left = ((ax + cx) / 2, (ay + cy) / 2);
          right = ((bx + dx) / 2, (by + dy) / 2);
          upper = ((cx + dx) / 2, (cy + dy) / 2);
          middle = ((ax + bx + cx + dx) / 4, (ay + by + cy + dy) / 4)
      in if child_n = 0 then ((ax, ay), bottom, left, middle)
         else if child_n = 1 then (bottom, (bx, by), middle, right)
         else if child_n = 2 then (left, middle, (cx, cy), upper)
         else (middle, right, upper, (dx, dy)))"

definition boundary_face :: "nat \<Rightarrow> face" where
  "boundary_face boundary_id =
     \<lparr>face_manifold_id = flat_manifold_id, face_boundary_id = boundary_id, face_lines = []\<rparr>"

definition interior_face :: face where
  "interior_face = boundary_face internal_face_boundary_id"

definition quad_child_faces :: "face list \<Rightarrow> nat \<Rightarrow> face list" where
  "quad_child_faces faces child_n =
     (case faces of
        [f_left, f_right, f_bottom, f_top] \<Rightarrow>
          (if child_n = 0 then [f_left, interior_face, f_bottom, interior_face]
           else if child_n = 1 then [interior_face, f_right, f_bottom, interior_face]
           else if child_n = 2 then [f_left, interior_face, interior_face, f_top]
           else [interior_face, f_right, interior_face, f_top])
      | _ \<Rightarrow> [])"

definition quad_library :: "quad library" where
  "quad_library =
     \<lparr>lib_dim = 2, lib_spacedim = 2,
      bounding_box = quad_bounding_box,
      child_geometry = quad_child,
      child_faces = quad_child_faces,
      vertices = quad_vertices,
      barycenter = quad_barycenter\<rparr>"










section \<open>Properties of the intersection predicate\<close>

lemma intersects_from_iff:
  "intersects_from spacedim d a b \<longleftrightarrow> (\<forall>k. d \<le> k \<and> k < spacedim \<longrightarrow> \<not> axis_disjoint a b k)"
proof (induction spacedim d a b rule: intersects_from.induct)
  case (1 spacedim d a b)
  note unfold = intersects_from.simps[of spacedim d a b]
  show ?case
  proof (cases "d < spacedim")
    case False
    then show ?thesis using unfold by auto
  next
    case True
    show ?thesis
    proof (cases "axis_disjoint a b d")
      case disj: True
      with True unfold show ?thesis by auto
    next
      case nd: False
      have step: "intersects_from spacedim d a b = intersects_from spacedim (Suc d) a b"
        using True nd unfold by simp
      have "d \<le> k \<longleftrightarrow> k = d \<or> Suc d \<le> k" for k
        by arith
      then have "(\<forall>k. Suc d \<le> k \<and> k < spacedim \<longrightarrow> \<not> axis_disjoint a b k) \<longleftrightarrow>
            (\<forall>k. d \<le> k \<and> k < spacedim \<longrightarrow> \<not> axis_disjoint a b k)"
        using nd by auto
      with step "1.IH"[OF True nd] show ?thesis by simp
    qed
  qed
qed

lemma intersects_iff: "intersects spacedim a b \<longleftrightarrow> (\<forall>d<spacedim. \<not> axis_disjoint a b d)"
  by (simp add: intersects_def intersects_from_iff)

lemma axis_disjoint_iff:
  assumes "lower_bound a d \<le> upper_bound a d" and "lower_bound b d \<le> upper_bound b d"
  shows "\<not> axis_disjoint a b d \<longleftrightarrow> intervals_overlap a b d"
  using assms unfolding axis_disjoint_def intervals_overlap_def by auto

text \<open>
  C3. For well-formed boxes, \<open>intersects\<close> holds exactly when the closed intervals overlap
  on every axis; hence the predicate is symmetric, every box intersects itself, and boxes
  that touch on one axis (upper bound of one equal to the lower bound of the other) and
  overlap on the others intersect.
\<close>

theorem intersects_closed_interval_overlap:
  assumes "box_ok spacedim a" and "box_ok spacedim b"
  shows "(intersects spacedim a b \<longleftrightarrow> (\<forall>d<spacedim. intervals_overlap a b d)) \<and>
         intersects spacedim a b = intersects spacedim b a \<and>
         intersects spacedim a a \<and>
         ((\<forall>d<spacedim. upper_bound a d = lower_bound b d \<or> intervals_overlap a b d)
            \<longrightarrow> intersects spacedim a b)"
proof -
  have ab: "\<not> axis_disjoint a b d \<longleftrightarrow> intervals_overlap a b d" if "d < spacedim" for d
    using that assms axis_disjoint_iff[of a d b] by (simp add: box_ok_def)
  have ba: "\<not> axis_disjoint b a d \<longleftrightarrow> intervals_overlap b a d" if "d < spacedim" for d
    using that assms axis_disjoint_iff[of b d a] by (simp add: box_ok_def)
  have aa: "\<not> axis_disjoint a a d" if "d < spacedim" for d
    using that assms axis_disjoint_iff[of a d a] by (simp add: box_ok_def intervals_overlap_def)
  have sym: "intervals_overlap a b d \<longleftrightarrow> intervals_overlap b a d" for d
    by (auto simp: intervals_overlap_def)
  have main: "intersects spacedim a b \<longleftrightarrow> (\<forall>d<spacedim. intervals_overlap a b d)"
    by (simp add: intersects_iff ab)
  have touch: "intervals_overlap a b d"
    if d: "d < spacedim" and t: "upper_bound a d = lower_bound b d \<or> intervals_overlap a b d" for d
  proof -
    have "lower_bound a d \<le> upper_bound a d" and "lower_bound b d \<le> upper_bound b d"
      using d assms by (simp_all add: box_ok_def)
    with t show ?thesis
      by (auto simp: intervals_overlap_def)
  qed
  have symm: "intersects spacedim a b = intersects spacedim b a"
    by (simp add: intersects_iff ab ba sym)
  have self: "intersects spacedim a a"
    by (simp add: intersects_iff aa)
  have tch: "(\<forall>d<spacedim. upper_bound a d = lower_bound b d \<or> intervals_overlap a b d)
            \<longrightarrow> intersects spacedim a b"
    using touch main by blast
  show ?thesis
    using main symm self tch by blast
qed

theorem intersects_closed_interval_overlap_witness:
  "box_ok 2 (mk_box [0, 0] [1, 1 :: real]) \<and> box_ok 2 (mk_box [1, 0] [2, 1 :: real]) \<and>
   intersects 2 (mk_box [0, 0] [1, 1 :: real]) (mk_box [1, 0] [2, 1]) \<and>
   intersects 2 (mk_box [1, 0] [2, 1 :: real]) (mk_box [0, 0] [1, 1]) \<and>
   intersects 2 (mk_box [0, 0] [1, 1 :: real]) (mk_box [0, 0] [1, 1])"
proof -
  have a: "box_ok 2 (mk_box [0, 0] [1, 1 :: real])"
    by (simp add: box_ok_def mk_box_def lower_bound_def upper_bound_def less_Suc_eq numeral_2_eq_2)
  have b: "box_ok 2 (mk_box [1, 0] [2, 1 :: real])"
    by (simp add: box_ok_def mk_box_def lower_bound_def upper_bound_def less_Suc_eq numeral_2_eq_2)
  have ov: "\<forall>d<2. intervals_overlap (mk_box [0, 0] [1, 1 :: real]) (mk_box [1, 0] [2, 1]) d"
    by (simp add: intervals_overlap_def mk_box_def lower_bound_def upper_bound_def less_Suc_eq
        numeral_2_eq_2)
  show ?thesis
    using intersects_closed_interval_overlap[OF a b] a b ov by blast
qed

section \<open>Properties of the DoF translation\<close>






lemma pack_walk_requested:
  assumes "sorted_wrt (<) (map n_active_cell_index cells)"
    and "sorted_wrt (<) (r # rs)"
    and "set (r # rs) \<subseteq> n_active_cell_index ` set cells"
  shows "pack_walk cells r rs out =
           out @ concat (map packed_record (requested_cells cells (r # rs))) \<and>
         map n_active_cell_index (requested_cells cells (r # rs)) = r # rs"
  using assms
proof (induction cells arbitrary: r rs out)
  case Nil
  then show ?case by simp
next
  case (Cons cell cells)
  have later: "n_active_cell_index cell < n_active_cell_index c" if "c \<in> set cells" for c
    using Cons.prems(1) that by auto
  have tail_sorted: "sorted_wrt (<) (map n_active_cell_index cells)"
    using Cons.prems(1) by simp
  have r_least: "r < x" if "x \<in> set rs" for x
    using Cons.prems(2) that by auto
  show ?case
  proof (cases "n_active_cell_index cell = r")
    case False
    have "r \<in> n_active_cell_index ` set cells"
      using Cons.prems(3) False by auto
    then have lt: "n_active_cell_index cell < r"
      using later by auto
    then have notin: "n_active_cell_index cell \<notin> set (r # rs)"
      using r_least by fastforce
    then have sub: "set (r # rs) \<subseteq> n_active_cell_index ` set cells"
      using Cons.prems(3) by auto
    have req: "requested_cells (cell # cells) (r # rs) = requested_cells cells (r # rs)"
      using notin by (simp add: requested_cells_def)
    show ?thesis
      using Cons.IH[OF tail_sorted Cons.prems(2) sub, of out] False
      by (simp add: req)
  next
    case True
    show ?thesis
    proof (cases rs)
      case Nil
      have "n_active_cell_index c \<noteq> r" if "c \<in> set cells" for c
        using later[OF that] True by simp
      then have "requested_cells cells [r] = []"
        by (simp add: requested_cells_def filter_empty_conv)
      then have "requested_cells (cell # cells) [r] = [cell]"
        using True by (simp add: requested_cells_def)
      then show ?thesis
        using True Nil by simp
    next
      case (Cons r' rs')
      have srt: "sorted_wrt (<) (r' # rs')"
        using Cons.prems(2) Cons by simp
      have gt: "r < x" if "x \<in> set (r' # rs')" for x
        using r_least that Cons by simp
      have sub: "set (r' # rs') \<subseteq> n_active_cell_index ` set cells"
      proof
        fix x assume x: "x \<in> set (r' # rs')"
        then have "x \<in> n_active_cell_index ` set (cell # cells)"
          using Cons.prems(3) Cons by auto
        moreover have "x \<noteq> n_active_cell_index cell"
          using gt[OF x] True by simp
        ultimately show "x \<in> n_active_cell_index ` set cells"
          by auto
      qed
      have "filter (\<lambda>c. n_active_cell_index c \<in> set (r # r' # rs')) cells =
            filter (\<lambda>c. n_active_cell_index c \<in> set (r' # rs')) cells"
        using later True by (intro filter_cong) fastforce+
      then have req: "requested_cells (cell # cells) (r # r' # rs') =
                      cell # requested_cells cells (r' # rs')"
        using True by (simp add: requested_cells_def)
      show ?thesis
        using Cons.IH[OF tail_sorted srt sub, of "out @ packed_record cell"] True Cons
        by (simp add: req)
    qed
  qed
qed

text \<open>
  C6. The reply to one request list is built in a single walk over the native active cells
  in increasing order of their active cell index. When the request list is strictly
  increasing and names active cells of the walk, the reply is the concatenation, in
  increasing index order, of exactly one record per requested index: the index, the
  number of DoFs of the cell, its DoFs in the order of \<open>get_dof_indices\<close>, and
  \<open>invalid_dof_index\<close>.
\<close>

theorem packed_reply_one_record_per_request:
  assumes "sorted_wrt (<) (map n_active_cell_index cells)"
    and "sorted_wrt (<) req"
    and "req \<noteq> []"
    and "set req \<subseteq> n_active_cell_index ` set cells"
  shows "pack_requested cells req =
           Inr (concat (map (\<lambda>c. [n_active_cell_index c, length (n_dof_indices c)] @
                                  n_dof_indices c @ [invalid_dof_index])
                            (requested_cells cells req))) \<and>
         map n_active_cell_index (requested_cells cells req) = req"
proof -
  obtain r rs where req: "req = r # rs"
    using assms(3) by (cases req) auto
  have "packed_record = (\<lambda>c. [n_active_cell_index c, length (n_dof_indices c)] @
                              n_dof_indices c @ [invalid_dof_index])"
    by (rule ext) (simp add: packed_record_def)
  then show ?thesis
    using pack_walk_requested[of cells r rs "[]"] assms(1,2,4)
    by (simp add: req pack_requested_def)
qed

theorem packed_reply_one_record_per_request_witness:
  "sorted_wrt (<) (map n_active_cell_index example_native_cells) \<and>
   sorted_wrt (<) [1, 3 :: nat] \<and> [1, 3 :: nat] \<noteq> [] \<and>
   set [1, 3] \<subseteq> n_active_cell_index ` set example_native_cells \<and>
   pack_requested example_native_cells [1, 3] =
     Inr [1, 2, 11, 12, invalid_dof_index, 3, 2, 13, 14, invalid_dof_index]"
proof -
  have a: "sorted_wrt (<) (map n_active_cell_index example_native_cells)"
    by (simp add: example_native_cells_def)
  have b: "sorted_wrt (<) [1, 3 :: nat]" by simp
  have c: "[1, 3 :: nat] \<noteq> []" by simp
  have d: "set [1, 3] \<subseteq> n_active_cell_index ` set example_native_cells"
    by (simp add: example_native_cells_def)
  have e: "requested_cells example_native_cells [1, 3] =
             [\<lparr>n_active_cell_index = 1, n_dof_indices = [11, 12]\<rparr>,
              \<lparr>n_active_cell_index = 3, n_dof_indices = [13, 14]\<rparr>]"
    by (simp add: example_native_cells_def requested_cells_def)
  show ?thesis
    using packed_reply_one_record_per_request[OF a b c d] a b c d
    by (simp add: e[simplified])
qed

lemma functional_subset:
  assumes "\<forall>p\<in>A. \<forall>q\<in>A. fst p = fst q \<longrightarrow> snd p = snd q" and "B \<subseteq> A"
  shows "\<forall>p\<in>B. \<forall>q\<in>B. fst p = fst q \<longrightarrow> snd p = snd q"
  using assms by blast

lemma unique_of_sorted_functional:
  assumes "sorted (map fst S)"
    and "\<forall>p\<in>set S. \<forall>q\<in>set S. fst p = fst q \<longrightarrow> snd p = snd q"
  shows "sorted_wrt (<) (map fst (remdups_adj S))"
  using assms
proof (induction S rule: remdups_adj.induct)
  case 1
  show ?case by simp
next
  case (2 x)
  show ?case by simp
next
  case (3 x y xs)
  show ?case
  proof (cases "x = y")
    case True
    have s: "sorted (map fst (x # xs))"
      using "3.prems"(1) by simp
    have f: "\<forall>p\<in>set (x # xs). \<forall>q\<in>set (x # xs). fst p = fst q \<longrightarrow> snd p = snd q"
      by (rule functional_subset[OF "3.prems"(2)]) auto
    have "sorted_wrt (<) (map fst (remdups_adj (x # xs)))"
      by (rule "3.IH"(1)[OF True s f])
    then show ?thesis
      using True by simp
  next
    case False
    have srt: "sorted (map fst (y # xs))"
      using "3.prems"(1) by simp
    have fn: "\<forall>p\<in>set (y # xs). \<forall>q\<in>set (y # xs). fst p = fst q \<longrightarrow> snd p = snd q"
      by (rule functional_subset[OF "3.prems"(2)]) auto
    have ih: "sorted_wrt (<) (map fst (remdups_adj (y # xs)))"
      using "3.IH"(2)[OF False srt fn] .
    have "fst x \<noteq> fst y"
    proof
      assume eq: "fst x = fst y"
      have "x \<in> set (x # y # xs)" and "y \<in> set (x # y # xs)"
        by simp_all
      with eq have "snd x = snd y"
        using "3.prems"(2) by blast
      with eq have "x = y"
        by (simp add: prod_eq_iff)
      with False show False by simp
    qed
    moreover have "fst x \<le> fst y"
      using "3.prems"(1) by simp
    ultimately have lt: "fst x < fst y"
      by simp
    have ge: "fst y \<le> fst z" if "z \<in> set (y # xs)" for z
      using srt that by auto
    have "fst x < fst z" if "z \<in> set (remdups_adj (y # xs))" for z
    proof -
      have "z \<in> set (y # xs)"
        using that by (simp only: remdups_adj_set)
      from ge[OF this] lt show ?thesis by simp
    qed
    then have "\<forall>z\<in>set (remdups_adj (y # xs)). fst x < fst z"
      by blast
    moreover have "remdups_adj (x # y # xs) = x # remdups_adj (y # xs)"
      using False by simp
    ultimately show ?thesis
      using ih by (simp del: remdups_adj.simps)
  qed
qed


lemma std_lower_bound_finds:
  assumes "sorted (map o_native_active_cell_index cs)"
    and "v \<in> o_native_active_cell_index ` set cs"
  shows "\<exists>oc. std_lower_bound cs v = Some oc \<and> oc \<in> set cs \<and>
              o_native_active_cell_index oc = v"
  using assms
proof (induction cs)
  case Nil
  then show ?case by simp
next
  case (Cons c cs)
  show ?case
  proof (cases "o_native_active_cell_index c < v")
    case True
    then have "v \<in> o_native_active_cell_index ` set cs"
      using Cons.prems(2) by auto
    moreover have "sorted (map o_native_active_cell_index cs)"
      using Cons.prems(1) by simp
    ultimately obtain oc where "std_lower_bound cs v = Some oc" "oc \<in> set cs"
      "o_native_active_cell_index oc = v"
      using Cons.IH by blast
    then show ?thesis
      using True by (auto simp: std_lower_bound_def)
  next
    case False
    obtain x where x: "x \<in> set (c # cs)" "o_native_active_cell_index x = v"
      using Cons.prems(2) by auto
    have "o_native_active_cell_index c \<le> o_native_active_cell_index x"
      using Cons.prems(1) x(1) by auto
    then have "o_native_active_cell_index c = v"
      using False x(2) by simp
    then show ?thesis
      by (simp add: std_lower_bound_def)
  qed
qed

lemma zip_take_length:
  "zip (take (length ys) xs) ys = zip xs ys"
proof (induction ys arbitrary: xs)
  case Nil
  show ?case by simp
next
  case (Cons y ys)
  show ?case by (cases xs) (simp_all add: Cons.IH)
qed

lemma unpack_records_packed:
  assumes "list_all (reply_ok sorted_cells) cells"
  shows "unpack_records sorted_cells (concat (map packed_record cells)) acc =
           Inr (acc @ concat (map (cell_pairs sorted_cells) cells))"
  using assms
proof (induction cells arbitrary: acc)
  case Nil
  show ?case by simp
next
  case (Cons cell cells)
  let ?rest = "concat (map packed_record cells)"
  let ?dofs = "n_dof_indices cell"
  obtain oc where oc: "std_lower_bound sorted_cells (n_active_cell_index cell) = Some oc"
    "o_native_active_cell_index oc = n_active_cell_index cell"
    "length ?dofs \<le> length (o_dof_indices oc)"
    using Cons.prems by (auto simp: reply_ok_def split: option.splits)
  have packed: "concat (map packed_record (cell # cells)) =
                  n_active_cell_index cell # length ?dofs # (?dofs @ invalid_dof_index # ?rest)"
    by (simp add: packed_record_def)
  have nth: "(?dofs @ invalid_dof_index # ?rest) ! length ?dofs = invalid_dof_index"
    by (simp add: nth_append)
  have drop: "drop (Suc (length ?dofs)) (?dofs @ invalid_dof_index # ?rest) = ?rest"
    by simp
  have take: "take (length ?dofs) (?dofs @ invalid_dof_index # ?rest) = ?dofs"
    by simp
  have pairs: "zip (take (length ?dofs) (o_dof_indices oc)) ?dofs =
                 cell_pairs sorted_cells cell"
    by (simp add: cell_pairs_def oc(1) zip_take_length)
  have ih: "unpack_records sorted_cells ?rest (acc @ cell_pairs sorted_cells cell) =
              Inr ((acc @ cell_pairs sorted_cells cell) @
                   concat (map (cell_pairs sorted_cells) cells))"
    using Cons.prems by (intro Cons.IH) simp
  show ?case
    unfolding packed
    apply (simp only: unpack_records.simps oc(1,2) option.case list.case nth drop take pairs ih)
    using oc(3) by simp
qed

lemma unpack_all_packed:
  assumes "replies_ok sorted_cells replies"
  shows "unpack_all sorted_cells (packed_replies replies) acc =
           Inr (acc @ collected_pairs sorted_cells replies)"
  using assms
proof (induction replies arbitrary: acc)
  case Nil
  show ?case by (simp add: packed_replies_def collected_pairs_def)
next
  case (Cons reply replies)
  obtain rank cells where reply: "reply = (rank, cells)"
    by (cases reply)
  have ok: "list_all (reply_ok sorted_cells) cells" and oks: "replies_ok sorted_cells replies"
    using Cons.prems by (simp_all add: replies_ok_def reply)
  have ih: "unpack_all sorted_cells (packed_replies replies) acc' =
              Inr (acc' @ collected_pairs sorted_cells replies)" for acc'
    using Cons.IH[OF oks] .
  have "packed_replies (reply # replies) =
          (rank, concat (map packed_record cells)) # packed_replies replies"
    by (simp add: packed_replies_def reply)
  moreover have "collected_pairs sorted_cells (reply # replies) =
          concat (map (cell_pairs sorted_cells) cells) @ collected_pairs sorted_cells replies"
    by (simp add: collected_pairs_def reply)
  ultimately show ?case
    by (simp add: unpack_records_packed[OF ok] ih)
qed

lemma reply_cells_found:
  assumes srt: "sorted (map o_native_active_cell_index sorted_cells)"
    and st: "set sorted_cells = set (filter o_is_locally_owned cells)"
    and cover: "replies_cover cells replies"
    and same: "same_numbering g cells replies"
    and mem: "(rank, rcells) \<in> set replies" "cell \<in> set rcells"
  shows "\<exists>oc. std_lower_bound sorted_cells (n_active_cell_index cell) = Some oc \<and>
              oc \<in> set (filter o_is_locally_owned cells) \<and>
              o_native_active_cell_index oc = n_active_cell_index cell \<and>
              n_dof_indices cell = map g (o_dof_indices oc)"
proof -
  have "n_active_cell_index cell \<in> set (reply_indices replies)"
    using mem by (force simp: reply_indices_def)
  then have "n_active_cell_index cell \<in> o_native_active_cell_index ` set sorted_cells"
    using cover st by (simp add: replies_cover_def)
  then obtain oc where oc: "std_lower_bound sorted_cells (n_active_cell_index cell) = Some oc"
    "oc \<in> set sorted_cells" "o_native_active_cell_index oc = n_active_cell_index cell"
    using std_lower_bound_finds[OF srt] by blast
  have own: "oc \<in> set (filter o_is_locally_owned cells)"
    using oc(2) st by simp
  have "n_dof_indices cell = map g (o_dof_indices oc)"
    using same own mem oc(3) unfolding same_numbering_def list_all_iff by fastforce
  with oc own show ?thesis by blast
qed

lemma replies_ok_of_same_numbering:
  assumes "sorted (map o_native_active_cell_index sorted_cells)"
    and "set sorted_cells = set (filter o_is_locally_owned cells)"
    and "replies_cover cells replies"
    and "same_numbering g cells replies"
  shows "replies_ok sorted_cells replies"
  unfolding replies_ok_def list_all_iff
proof (intro ballI, clarify)
  fix rank rcells cell
  assume mem: "(rank, rcells) \<in> set replies" "cell \<in> set rcells"
  obtain oc where "std_lower_bound sorted_cells (n_active_cell_index cell) = Some oc"
    "o_native_active_cell_index oc = n_active_cell_index cell"
    "n_dof_indices cell = map g (o_dof_indices oc)"
    using reply_cells_found[OF assms mem] by blast
  then show "reply_ok sorted_cells cell"
    by (simp add: reply_ok_def)
qed

lemma collected_pairs_graph:
  assumes srt: "sorted (map o_native_active_cell_index sorted_cells)"
    and st: "set sorted_cells = set (filter o_is_locally_owned cells)"
    and dist: "distinct (map o_native_active_cell_index (filter o_is_locally_owned cells))"
    and cover: "replies_cover cells replies"
    and same: "same_numbering g cells replies"
  shows "set (collected_pairs sorted_cells replies) =
           (\<lambda>d. (d, g d)) ` set (dofs_on_owned_cells cells)"
proof (intro set_eqI iffI)
  fix p
  assume "p \<in> set (collected_pairs sorted_cells replies)"
  then obtain rank rcells cell where mem: "(rank, rcells) \<in> set replies" "cell \<in> set rcells"
    and p: "p \<in> set (cell_pairs sorted_cells cell)"
    by (auto simp: collected_pairs_def)
  obtain oc where oc: "std_lower_bound sorted_cells (n_active_cell_index cell) = Some oc"
    "oc \<in> set (filter o_is_locally_owned cells)"
    "n_dof_indices cell = map g (o_dof_indices oc)"
    using reply_cells_found[OF srt st cover same mem] by blast
  have "cell_pairs sorted_cells cell = map (\<lambda>d. (d, g d)) (o_dof_indices oc)"
    by (simp add: cell_pairs_def oc(1,3) zip_map2 zip_same_conv_map)
  then obtain d where "d \<in> set (o_dof_indices oc)" "p = (d, g d)"
    using p by auto
  then show "p \<in> (\<lambda>d. (d, g d)) ` set (dofs_on_owned_cells cells)"
    using oc(2) by (auto simp: dofs_on_owned_cells_def)
next
  fix p
  assume "p \<in> (\<lambda>d. (d, g d)) ` set (dofs_on_owned_cells cells)"
  then obtain oc d where own: "oc \<in> set (filter o_is_locally_owned cells)"
    and d: "d \<in> set (o_dof_indices oc)" and p: "p = (d, g d)"
    by (auto simp: dofs_on_owned_cells_def)
  have "o_native_active_cell_index oc \<in> set (reply_indices replies)"
    using cover own by (simp add: replies_cover_def)
  then obtain rank rcells cell where mem: "(rank, rcells) \<in> set replies" "cell \<in> set rcells"
    and idx: "n_active_cell_index cell = o_native_active_cell_index oc"
    by (auto simp: reply_indices_def)
  obtain oc' where oc': "std_lower_bound sorted_cells (n_active_cell_index cell) = Some oc'"
    "oc' \<in> set (filter o_is_locally_owned cells)"
    "o_native_active_cell_index oc' = n_active_cell_index cell"
    "n_dof_indices cell = map g (o_dof_indices oc')"
    using reply_cells_found[OF srt st cover same mem] by blast
  have "inj_on o_native_active_cell_index (set (filter o_is_locally_owned cells))"
    using dist by (simp only: distinct_map)
  then have "oc' = oc"
    using oc'(2,3) own idx by (auto dest: inj_onD)
  then have "cell_pairs sorted_cells cell = map (\<lambda>d. (d, g d)) (o_dof_indices oc)"
    using oc'(1,4) by (simp add: cell_pairs_def zip_map2 zip_same_conv_map)
  then have "p \<in> set (cell_pairs sorted_cells cell)"
    using d p by simp
  then show "p \<in> set (collected_pairs sorted_cells replies)"
    using mem by (force simp: collected_pairs_def)
qed

lemma native_indices_of_graph:
  assumes sort: "std_sort_result (\<lambda>a b. fst a < fst b) pairs sorted_pairs"
    and graph: "set pairs = (\<lambda>d. (d, g d)) ` D"
  shows "native_indices_of sorted_pairs = map g (sorted_list_of_set D)"
proof -
  have "mset sorted_pairs = mset pairs"
    using sort by (simp add: std_sort_result_def)
  then have st: "set sorted_pairs = (\<lambda>d. (d, g d)) ` D"
    using graph by (metis mset_eq_setD)
  have "sorted_wrt (\<lambda>a b. \<not> fst b < fst a) sorted_pairs"
    using sort by (simp add: std_sort_result_def)
  then have "sorted_wrt (\<lambda>a b. fst a \<le> fst b) sorted_pairs"
    by (simp add: not_less)
  then have srt: "sorted (map fst sorted_pairs)"
    by (simp add: sorted_wrt_map)
  let ?U = "remdups_adj sorted_pairs"
  have snd_g: "snd p = g (fst p)" if "p \<in> set sorted_pairs" for p
    using that st by auto
  have fn: "\<forall>p\<in>set sorted_pairs. \<forall>q\<in>set sorted_pairs. fst p = fst q \<longrightarrow> snd p = snd q"
    using snd_g by metis
  have strict: "sorted_wrt (<) (map fst ?U)"
    using unique_of_sorted_functional[OF srt fn] .
  have keys_set: "set (map fst ?U) = D"
    using st by (force simp: image_iff)
  have fin: "finite D"
    using keys_set[symmetric] by simp
  have "sorted (map fst ?U)" and "distinct (map fst ?U)"
    using strict by (simp_all add: strict_sorted_iff)
  then have keys: "map fst ?U = sorted_list_of_set D"
    using keys_set fin
    by (intro sorted_distinct_set_unique) simp_all
  have "map snd ?U = map (\<lambda>p. g (fst p)) ?U"
    using snd_g by (intro map_cong) simp_all
  also have "\<dots> = map g (map fst ?U)"
    by simp
  finally show ?thesis
    by (simp add: native_indices_of_def std_unique_def keys)
qed

text \<open>
  C2. Let the function pass its assertions and the replies be records, in the format of
  step 3, for the native cells of the locally owned overlap cells, with both handlers
  numbering alike: \<open>g\<close> takes each overlap DoF of a locally owned cell to its native DoF.
  Let different locally owned overlap cells have different native cells. Then the function
  returns, after both exchanges, the native DoFs of the overlap DoFs on locally owned
  cells, one entry each, in increasing order of the overlap DoF, whatever order the two
  sorts give to equivalent elements. When these overlap DoFs are \<open>0, ..., n - 1\<close>, the
  array has \<open>n\<close> entries and entry \<open>i\<close> is the native DoF of overlap DoF \<open>i\<close>.
\<close>

theorem overlap_to_native_one_entry_per_overlap_dof:
  assumes "overlap_dh_on_overlap_tria inp" and "native_dh_on_native_tria inp"
    and "native_fe_name inp = overlap_fe_name inp"
    and "is_std_sort (\<lambda>a b. o_native_active_cell_index a < o_native_active_cell_index b)
           std_sort_cells"
    and "is_std_sort (\<lambda>a b. fst a < fst b) std_sort_pairs"
    and "pack_all (native_active_cells inp)
           (some_to_some_cells (native_active_cell_ids_on_overlap (overlap_active_cells inp)))
           Map.empty = Inr dofs_on_native"
    and "some_to_some_dofs dofs_on_native = packed_replies replies"
    and "distinct (map o_native_active_cell_index
                     (filter o_is_locally_owned (overlap_active_cells inp)))"
    and "replies_cover (overlap_active_cells inp) replies"
    and "same_numbering g (overlap_active_cells inp) replies"
  shows "compute_overlap_to_native_dof_translation std_sort_cells std_sort_pairs
           some_to_some_cells some_to_some_dofs inp =
           (2, Inr (map g (sorted_list_of_set
                             (set (dofs_on_owned_cells (overlap_active_cells inp)))))) \<and>
         (set (dofs_on_owned_cells (overlap_active_cells inp)) = {0..<n} \<longrightarrow>
          compute_overlap_to_native_dof_translation std_sort_cells std_sort_pairs
            some_to_some_cells some_to_some_dofs inp = (2, Inr (map g [0..<n])))"
proof -
  let ?cells = "overlap_active_cells inp"
  let ?sorted = "overlap_dh_cells std_sort_cells ?cells"
  let ?D = "set (dofs_on_owned_cells ?cells)"
  have sc: "std_sort_result (\<lambda>a b. o_native_active_cell_index a < o_native_active_cell_index b)
              (filter o_is_locally_owned ?cells) ?sorted"
    using assms(4) by (simp add: is_std_sort_def overlap_dh_cells_def)
  have "mset ?sorted = mset (filter o_is_locally_owned ?cells)"
    using sc by (simp add: std_sort_result_def)
  then have st: "set ?sorted = set (filter o_is_locally_owned ?cells)"
    by (rule mset_eq_setD)
  have "sorted_wrt (\<lambda>a b. \<not> o_native_active_cell_index b < o_native_active_cell_index a) ?sorted"
    using sc by (simp add: std_sort_result_def)
  then have "sorted_wrt (\<lambda>a b. o_native_active_cell_index a \<le> o_native_active_cell_index b)
               ?sorted"
    by (simp add: not_less)
  then have srt: "sorted (map o_native_active_cell_index ?sorted)"
    by (simp add: sorted_wrt_map)
  have ok: "replies_ok ?sorted replies"
    using replies_ok_of_same_numbering[OF srt st assms(9,10)] .
  have unpack: "unpack_all ?sorted (some_to_some_dofs dofs_on_native) [] =
                  Inr (collected_pairs ?sorted replies)"
    using unpack_all_packed[OF ok, of "[]"] by (simp add: assms(7))
  have graph: "set (collected_pairs ?sorted replies) = (\<lambda>d. (d, g d)) ` ?D"
    using collected_pairs_graph[OF srt st assms(8,9,10)] .
  have "std_sort_result (\<lambda>a b. fst a < fst b) (collected_pairs ?sorted replies)
          (std_sort_pairs (collected_pairs ?sorted replies))"
    using assms(5) by (simp add: is_std_sort_def)
  then have arr: "native_indices_of (std_sort_pairs (collected_pairs ?sorted replies)) =
                    map g (sorted_list_of_set ?D)"
    using graph by (rule native_indices_of_graph)
  have res: "compute_overlap_to_native_dof_translation std_sort_cells std_sort_pairs
               some_to_some_cells some_to_some_dofs inp =
               (2, Inr (map g (sorted_list_of_set ?D)))"
    using assms(1,2,3,6)
    by (simp add: compute_overlap_to_native_dof_translation_def Let_def unpack arr)
  have "sorted_list_of_set {0..<n} = [0..<n]"
    by (simp add: sorted_list_of_set_range)
  then show ?thesis
    using res by simp
qed

lemma sort_key_is_std_sort:
  fixes f :: "'a \<Rightarrow> 'b::linorder"
  shows "is_std_sort (\<lambda>a b. f a < f b) (sort_key f)"
proof -
  have "sorted_wrt (\<lambda>a b. \<not> f b < f a) (sort_key f xs)" for xs
  proof -
    have "sorted (map f (sort_key f xs))"
      by simp
    then show ?thesis
      by (simp add: sorted_wrt_map not_less)
  qed
  then show ?thesis
    by (simp add: is_std_sort_def std_sort_result_def)
qed

theorem overlap_to_native_one_entry_per_overlap_dof_witness:
  "overlap_dh_on_overlap_tria single_process_translation \<and>
   native_dh_on_native_tria single_process_translation \<and>
   native_fe_name single_process_translation = overlap_fe_name single_process_translation \<and>
   is_std_sort (\<lambda>a b. o_native_active_cell_index a < o_native_active_cell_index b)
     (sort_key o_native_active_cell_index :: overlap_dh_cell list \<Rightarrow> overlap_dh_cell list) \<and>
   is_std_sort (\<lambda>a b. fst a < fst b)
     (sort_key fst :: (global_dof_index \<times> global_dof_index) list \<Rightarrow> (global_dof_index \<times> global_dof_index) list) \<and>
   pack_all (native_active_cells single_process_translation)
     (loopback (native_active_cell_ids_on_overlap
                  (overlap_active_cells single_process_translation)))
     Map.empty = Inr (Map.empty(0 \<mapsto> concat (map packed_record (snd (hd single_process_replies))))) \<and>
   loopback (Map.empty(0 \<mapsto> concat (map packed_record (snd (hd single_process_replies))))) =
     packed_replies single_process_replies \<and>
   distinct (map o_native_active_cell_index
               (filter o_is_locally_owned (overlap_active_cells single_process_translation))) \<and>
   replies_cover (overlap_active_cells single_process_translation) single_process_replies \<and>
   same_numbering (\<lambda>d. d + 11) (overlap_active_cells single_process_translation)
     single_process_replies \<and>
   set (dofs_on_owned_cells (overlap_active_cells single_process_translation)) = {0..<3} \<and>
   compute_overlap_to_native_dof_translation (sort_key o_native_active_cell_index)
     (sort_key fst) loopback loopback single_process_translation = (2, Inr [11, 12, 13])"
proof -
  let ?d = "Map.empty(0 \<mapsto> concat (map packed_record (snd (hd single_process_replies))))"
  have a: "overlap_dh_on_overlap_tria single_process_translation"
    and b: "native_dh_on_native_tria single_process_translation"
    and c: "native_fe_name single_process_translation =
            overlap_fe_name single_process_translation"
    by (simp_all add: single_process_translation_def)
  note d = sort_key_is_std_sort[of "o_native_active_cell_index :: overlap_dh_cell \<Rightarrow> nat"]
  note e = sort_key_is_std_sort[of "fst :: nat \<times> nat \<Rightarrow> nat"]
  have ids: "native_active_cell_ids_on_overlap
               (overlap_active_cells single_process_translation) 0 = Some [1, 2]"
    by (simp add: single_process_translation_def native_active_cell_ids_on_overlap_def
        push_back_at_def)
  have f: "pack_all (native_active_cells single_process_translation)
             (loopback (native_active_cell_ids_on_overlap
                          (overlap_active_cells single_process_translation)))
             Map.empty = Inr ?d"
    unfolding loopback_def ids
    by (simp add: single_process_translation_def example_native_cells_def
        single_process_replies_def pack_requested_def packed_record_def)
  have g: "loopback ?d = packed_replies single_process_replies"
    by (simp add: loopback_def packed_replies_def single_process_replies_def)
  have h: "distinct (map o_native_active_cell_index
             (filter o_is_locally_owned (overlap_active_cells single_process_translation)))"
    by (simp add: single_process_translation_def)
  have i: "replies_cover (overlap_active_cells single_process_translation)
             single_process_replies"
    by (auto simp: replies_cover_def reply_indices_def single_process_translation_def
        single_process_replies_def)
  have j: "same_numbering (\<lambda>d. d + 11) (overlap_active_cells single_process_translation)
             single_process_replies"
    by (simp add: same_numbering_def single_process_translation_def
        single_process_replies_def)
  have k: "set (dofs_on_owned_cells (overlap_active_cells single_process_translation)) =
             {0..<3}"
    by (auto simp: dofs_on_owned_cells_def single_process_translation_def)
  have "compute_overlap_to_native_dof_translation (sort_key o_native_active_cell_index)
          (sort_key fst) loopback loopback single_process_translation =
          (2, Inr (map (\<lambda>d. d + 11) [0..<3]))"
    using overlap_to_native_one_entry_per_overlap_dof[where some_to_some_cells = loopback
        and some_to_some_dofs = loopback and dofs_on_native = "?d"
        and g = "\<lambda>d. d + 11" and n = 3, OF a b c d e f g h i j] k
    by blast
  moreover have "map (\<lambda>d. d + 11) [0..<3] = [11, 12, 13 :: nat]"
    by (simp add: upt_rec)
  ultimately show ?thesis
    using a b c d e f g h i j k by simp
qed

text \<open>
  C8 as stated fails: with two different element names the function stops at the
  assertion only after the exchange of the requested cell indices has been made.
\<close>

theorem fe_mismatch_after_first_exchange_counterexample:
  "native_fe_name example_mismatch \<noteq> overlap_fe_name example_mismatch \<and>
   compute_overlap_to_native_dof_translation (sort_key o_native_active_cell_index)
     (sort_key fst) nothing_received nothing_received example_mismatch =
     (1, Inl (ExcMessage ''dof handlers should use the same FiniteElement''))"
  by (simp add: example_mismatch_def compute_overlap_to_native_dof_translation_def Let_def)

text \<open>
  C8, amended. When both handlers are attached to the right triangulations and the names
  of the two finite elements differ, the function stops with the message of the assertion
  on the elements. Exactly one exchange has been made by then (the requested active cell
  indices); no DoF has been packed and the second exchange is not made.
\<close>

theorem fe_mismatch_rejected_before_packing:
  assumes "overlap_dh_on_overlap_tria inp" and "native_dh_on_native_tria inp"
    and "native_fe_name inp \<noteq> overlap_fe_name inp"
  shows "compute_overlap_to_native_dof_translation std_sort_cells std_sort_pairs
           some_to_some_cells some_to_some_dofs inp =
           (1, Inl (ExcMessage ''dof handlers should use the same FiniteElement''))"
  using assms by (simp add: compute_overlap_to_native_dof_translation_def Let_def)

theorem fe_mismatch_rejected_before_packing_witness:
  "overlap_dh_on_overlap_tria example_mismatch \<and> native_dh_on_native_tria example_mismatch \<and>
   native_fe_name example_mismatch \<noteq> overlap_fe_name example_mismatch \<and>
   fst (compute_overlap_to_native_dof_translation (sort_key o_native_active_cell_index)
          (sort_key fst) nothing_received nothing_received example_mismatch) = 1"
proof -
  have a: "overlap_dh_on_overlap_tria example_mismatch"
    and b: "native_dh_on_native_tria example_mismatch"
    and c: "native_fe_name example_mismatch \<noteq> overlap_fe_name example_mismatch"
    by (simp_all add: example_mismatch_def)
  show ?thesis
    using fe_mismatch_rejected_before_packing[OF a b c,
        of "sort_key o_native_active_cell_index" "sort_key fst" nothing_received
          nothing_received]
      a b c by simp
qed

section \<open>Properties of the scatter\<close>

lemma length_deliver [simp]: "length (deliver vop native entry) = length native"
  by (simp add: deliver_def split: prod.splits)

lemma length_deliver_all [simp]: "length (deliver_all vop entries native) = length native"
  by (induction entries arbitrary: native) simp_all

lemma deliver_all_append:
  "deliver_all vop (es @ fs) native =
     deliver_all vop fs (deliver_all vop es native)"
  by (induction es arbitrary: native) simp_all

lemma overlap_to_global_all_contributions:
  "overlap_to_global_all vop processes native =
     deliver_all vop (contributions processes) native"
proof (induction processes arbitrary: native)
  case Nil
  show ?case by (simp add: contributions_def)
next
  case (Cons p processes)
  obtain m ov where p: "p = (m, ov)" by (cases p)
  have "contributions (p # processes) = zip m ov @ contributions processes"
    by (simp add: contributions_def p)
  then show ?case
    by (simp add: p Cons.IH overlap_to_global_def deliver_all_append)
qed

lemma deliver_all_untouched:
  assumes "j \<notin> fst ` set entries"
  shows "deliver_all vop entries native ! j = native ! j"
  using assms
proof (induction entries arbitrary: native)
  case Nil
  show ?case by simp
next
  case (Cons e entries)
  obtain i x where e: "e = (i, x)" by (cases e)
  have "i \<noteq> j" and "j \<notin> fst ` set entries"
    using Cons.prems e by auto
  then show ?case
    using Cons.IH[of "deliver vop native e"] by (simp add: e deliver_def)
qed

lemma deliver_all_insert:
  assumes "j < length native"
    and "j \<in> fst ` set entries"
    and "\<forall>e\<in>set entries. fst e = j \<longrightarrow> snd e = c"
  shows "deliver_all insert_values entries native ! j = c"
  using assms
proof (induction entries arbitrary: native)
  case Nil
  then show ?case by simp
next
  case (Cons e entries)
  obtain i x where e: "e = (i, x)" by (cases e)
  let ?native' = "deliver insert_values native e"
  have len: "j < length ?native'"
    using Cons.prems(1) by simp
  have rest: "\<forall>e\<in>set entries. fst e = j \<longrightarrow> snd e = c"
    using Cons.prems(3) by simp
  show ?case
  proof (cases "j \<in> fst ` set entries")
    case True
    show ?thesis
      using Cons.IH[OF len True rest] by simp
  next
    case False
    then have "i = j"
      using Cons.prems(2) e by auto
    then have "x = c"
      using Cons.prems(3) e by simp
    have "deliver_all insert_values entries ?native' ! j = ?native' ! j"
      by (rule deliver_all_untouched[OF False])
    also have "\<dots> = c"
      using \<open>i = j\<close> \<open>x = c\<close> Cons.prems(1) by (simp add: e deliver_def)
    finally show ?thesis by simp
  qed
qed

lemma deliver_all_add:
  assumes "j < length native"
  shows "deliver_all add_values entries native ! j =
           native ! j + sum_list (map snd (filter (\<lambda>e. fst e = j) entries))"
  using assms
proof (induction entries arbitrary: native)
  case Nil
  show ?case by simp
next
  case (Cons e entries)
  obtain i x where e: "e = (i, x)" by (cases e)
  let ?native' = "deliver add_values native e"
  have len: "j < length ?native'"
    using Cons.prems by simp
  have step: "?native' ! j = (if i = j then native ! j + x else native ! j)"
    using Cons.prems by (simp add: e deliver_def)
  show ?case
    using Cons.IH[OF len] step by (simp add: e add.assoc)
qed

lemma sum_list_constant:
  assumes "\<forall>y\<in>set ys. y = x"
  shows "sum_list ys = of_nat (length ys) * (x::'a::semiring_1)"
  using assms by (induction ys) (simp_all add: algebra_simps)

lemma contributions_scattered:
  "contributions (scattered maps native) =
     map (\<lambda>native_dof. (native_dof, native ! native_dof)) (concat maps)"
proof (induction maps)
  case Nil
  show ?case by (simp add: contributions_def scattered_def)
next
  case (Cons m maps)
  have "zip m (global_to_overlap m native) = map (\<lambda>native_dof. (native_dof, native ! native_dof)) m"
    by (simp add: global_to_overlap_def zip_map2 zip_same_conv_map)
  then show ?case
    using Cons.IH by (simp add: contributions_def scattered_def)
qed

text \<open>
  C4. Take a native vector \<open>v\<close>, transfer it to the overlap buffers of all processes, and
  transfer the buffers back into a native vector \<open>w\<close>, overwriting:
  every entry of the result that has exactly one overlap contributor equals the entry of
  \<open>v\<close>. When the buffers are transferred with addition, a native entry that receives the
  value \<open>x\<close> from each of its \<open>k\<close> overlap contributors ends as its prior value plus
  \<open>k\<close> times \<open>x\<close>.
\<close>

theorem scatter_round_trip_and_accumulation:
  assumes "j < length w"
  shows "(count_list (concat maps) j = 1 \<longrightarrow>
            overlap_to_global_all insert_values (scattered maps v) w ! j = v ! j) \<and>
         (contributors_hold processes j x \<longrightarrow>
            overlap_to_global_all add_values processes w ! j =
              w ! j + of_nat (n_contributors processes j) * x)"
proof (intro conjI impI)
  assume one: "count_list (concat maps) j = 1"
  then have mem: "j \<in> set (concat maps)"
    by (metis count_list_0_iff zero_neq_one)
  let ?entries = "map (\<lambda>native_dof. (native_dof, v ! native_dof)) (concat maps)"
  have a: "j \<in> fst ` set ?entries"
    using mem by (force simp: image_iff)
  have b: "\<forall>e\<in>set ?entries. fst e = j \<longrightarrow> snd e = v ! j"
    by auto
  show "overlap_to_global_all insert_values (scattered maps v) w ! j = v ! j"
    using deliver_all_insert[OF assms a b]
    by (simp add: overlap_to_global_all_contributions contributions_scattered)
next
  assume h: "contributors_hold processes j x"
  let ?ys = "map snd (filter (\<lambda>e. fst e = j) (contributions processes))"
  have "\<forall>y\<in>set ?ys. y = x"
    using h by (auto simp: contributors_hold_def)
  then have "sum_list ?ys = of_nat (length ?ys) * x"
    by (rule sum_list_constant)
  moreover have "length ?ys = n_contributors processes j"
    by (simp add: n_contributors_def)
  ultimately show "overlap_to_global_all add_values processes w ! j =
      w ! j + of_nat (n_contributors processes j) * x"
    using deliver_all_add[OF assms, of "contributions processes"]
    by (simp add: overlap_to_global_all_contributions)
qed

theorem scatter_round_trip_and_accumulation_witness:
  "(1::nat) < length [0, 0, 0 :: int] \<and>
   count_list (concat [ [0, 1 :: nat], [2, 0] ]) 1 = 1 \<and>
   overlap_to_global_all insert_values (scattered [ [0, 1], [2, 0] ] [5, 6, 7 :: int]) [0, 0, 0] ! 1 = 6 \<and>
   contributors_hold [([0, 1], [4, 3 :: int]), ([1, 2, 1], [3, 9, 3])] 1 3 \<and>
   n_contributors [([0, 1], [4, 3 :: int]), ([1, 2, 1], [3, 9, 3])] 1 = 3 \<and>
   overlap_to_global_all add_values [([0, 1], [4, 3 :: int]), ([1, 2, 1], [3, 9, 3])] [10, 20, 30] ! 1
     = 20 + 3 * 3"
proof -
  have a: "(1::nat) < length [0, 0, 0 :: int]" by simp
  have a': "(1::nat) < length [10, 20, 30 :: int]" by simp
  have b: "count_list (concat [ [0, 1], [2, 0] ]) (1::nat) = 1" by simp
  have c: "contributors_hold [([0, 1], [4, 3 :: int]), ([1, 2, 1], [3, 9, 3])] 1 3"
    by (simp add: contributions_def contributors_hold_def)
  have d: "n_contributors [([0, 1], [4, 3 :: int]), ([1, 2, 1], [3, 9, 3])] 1 = 3"
    by (simp add: contributions_def n_contributors_def)
  have r1: "overlap_to_global_all insert_values (scattered [ [0, 1], [2, 0] ] [5, 6, 7 :: int])
              [0, 0, 0] ! 1 = [5, 6, 7 :: int] ! 1"
    using scatter_round_trip_and_accumulation[OF a, of "[ [0, 1], [2, 0] ]" "[5, 6, 7]"] b
    by blast
  have r2: "overlap_to_global_all add_values [([0, 1], [4, 3 :: int]), ([1, 2, 1], [3, 9, 3])]
              [10, 20, 30] ! 1 = [10, 20, 30 :: int] ! 1 +
              of_nat (n_contributors [([0, 1], [4, 3 :: int]), ([1, 2, 1], [3, 9, 3])] 1) * 3"
    using scatter_round_trip_and_accumulation[OF a',
        of _ _ "[([0, 1], [4, 3 :: int]), ([1, 2, 1], [3, 9, 3])]" 3] c
    by blast
  show ?thesis
    using a b c d r1 r2 by simp
qed


section \<open>Properties of the transaction states\<close>

text \<open>
  C5. A transaction run through start, intermediate and finish of its own operation ends
  in \<open>Done\<close>. The intermediate phase on a transaction that has not been started, a second
  finish on a transaction that has been finished, and any spreading phase on a
  transaction of an interpolation are failed assertions.
\<close>

theorem transaction_phase_order_checked:
  "run_phases [compute_projection_rhs_start, compute_projection_rhs_intermediate,
               compute_projection_rhs_finish] (begin_transaction Interpolation) =
     Inr \<lparr>next_state = Done, operation = Interpolation\<rparr> \<and>
   run_phases [compute_spread_start, compute_spread_intermediate, compute_spread_finish]
     (begin_transaction Spreading) = Inr \<lparr>next_state = Done, operation = Spreading\<rparr> \<and>
   isl (compute_projection_rhs_intermediate (begin_transaction op)) \<and>
   isl (compute_spread_intermediate (begin_transaction op)) \<and>
   (compute_projection_rhs_finish t1 = Inr t1' \<longrightarrow> isl (compute_projection_rhs_finish t1')) \<and>
   (compute_spread_finish t2 = Inr t2' \<longrightarrow> isl (compute_spread_finish t2')) \<and>
   (operation t3 = Interpolation \<longrightarrow>
      isl (compute_spread_start t3) \<and> isl (compute_spread_intermediate t3) \<and>
      isl (compute_spread_finish t3))"
  by (auto simp: compute_projection_rhs_start_def compute_projection_rhs_intermediate_def
      compute_projection_rhs_finish_def compute_spread_start_def
      compute_spread_intermediate_def compute_spread_finish_def phase_def
      begin_transaction_def split: if_splits)

theorem transaction_phase_order_checked_witness:
  "compute_projection_rhs_finish \<lparr>next_state = Finish, operation = Interpolation\<rparr> =
     Inr \<lparr>next_state = Done, operation = Interpolation\<rparr> \<and>
   isl (compute_projection_rhs_finish \<lparr>next_state = Done, operation = Interpolation\<rparr>) \<and>
   compute_spread_finish \<lparr>next_state = Finish, operation = Spreading\<rparr> =
     Inr \<lparr>next_state = Done, operation = Spreading\<rparr> \<and>
   isl (compute_spread_finish \<lparr>next_state = Done, operation = Spreading\<rparr>) \<and>
   operation \<lparr>next_state = Intermediate, operation = Interpolation\<rparr> = Interpolation \<and>
   isl (compute_spread_intermediate \<lparr>next_state = Intermediate, operation = Interpolation\<rparr>)"
proof -
  have a: "compute_projection_rhs_finish \<lparr>next_state = Finish, operation = Interpolation\<rparr> =
     Inr \<lparr>next_state = Done, operation = Interpolation\<rparr>"
    by (simp add: compute_projection_rhs_finish_def phase_def)
  have b: "compute_spread_finish \<lparr>next_state = Finish, operation = Spreading\<rparr> =
     Inr \<lparr>next_state = Done, operation = Spreading\<rparr>"
    by (simp add: compute_spread_finish_def phase_def)
  have c: "operation \<lparr>next_state = Intermediate, operation = Interpolation\<rparr> = Interpolation"
    by simp
  show ?thesis
    using transaction_phase_order_checked[of Interpolation
        "\<lparr>next_state = Finish, operation = Interpolation\<rparr>"
        "\<lparr>next_state = Done, operation = Interpolation\<rparr>"
        "\<lparr>next_state = Finish, operation = Spreading\<rparr>"
        "\<lparr>next_state = Done, operation = Spreading\<rparr>"
        "\<lparr>next_state = Intermediate, operation = Interpolation\<rparr>"] a b c
    by blast
qed


section \<open>Properties of the overlap triangulation\<close>

lemma find_coarsest_level_None:
  "find_coarsest_level L patch_bboxes native_tria k = None \<longleftrightarrow>
     (\<forall>level_n. k \<le> level_n \<and> level_n < n_levels native_tria \<longrightarrow>
        \<not> list_ex (\<lambda>cell. intersects_patches L patch_bboxes (nc_geometry (nc_data cell)))
             (active_cells_on_level level_n native_tria))"
proof (induction L patch_bboxes native_tria k rule: find_coarsest_level.induct)
  case (1 L patch_bboxes native_tria level_n)
  note unfold = find_coarsest_level.simps[of L patch_bboxes native_tria level_n]
  let ?hit = "\<lambda>n. list_ex (\<lambda>cell. intersects_patches L patch_bboxes (nc_geometry (nc_data cell)))
             (active_cells_on_level n native_tria)"
  show ?case
  proof (cases "level_n < n_levels native_tria")
    case False
    then show ?thesis using unfold by auto
  next
    case True
    show ?thesis
    proof (cases "?hit level_n")
      case hit: True
      then show ?thesis using unfold True by auto
    next
      case miss: False
      have split: "level_n \<le> n \<longleftrightarrow> n = level_n \<or> Suc level_n \<le> n" for n
        by arith
      have "find_coarsest_level L patch_bboxes native_tria level_n =
            find_coarsest_level L patch_bboxes native_tria (Suc level_n)"
        using unfold True miss by simp
      then show ?thesis
        using "1.IH"[OF True miss] miss split by auto
    qed
  qed
qed

text \<open>
  C9. When on no level of the native triangulation an active cell has a bounding box that
  intersects one of the patch boxes, \<open>reinit_overlapping_tria\<close> stops at the assertion with
  \<open>ExcInternalError\<close>, and so does \<open>reinit\<close>: no triangulation is produced.
\<close>

theorem reinit_fails_without_intersecting_level:
  assumes "\<forall>level_n<n_levels native_tria.
             \<forall>cell\<in>set (active_cells_on_level level_n native_tria).
               \<forall>patch_bbox\<in>set patch_bboxes.
                 \<not> intersects (lib_spacedim L) (bounding_box L (nc_geometry (nc_data cell)))
                      patch_bbox"
  shows "reinit_overlapping_tria L native_tria patch_bboxes = Inl ExcInternalError \<and>
         reinit L native_tria patch_bboxes = Inl ExcInternalError"
proof -
  have "find_coarsest_level L patch_bboxes native_tria 0 = None"
    unfolding find_coarsest_level_None
    using assms by (auto simp: list_ex_iff intersects_patches_def)
  then show ?thesis
    by (simp add: reinit_overlapping_tria_def reinit_def)
qed

lemma interval_cell_sel:
  "nc_children (interval_cell a b material index children) = children"
  "nc_geometry (nc_data (interval_cell a b material index children)) = (a, b)"
  "nc_material_id (nc_data (interval_cell a b material index children)) = material"
  "nc_manifold_id (nc_data (interval_cell a b material index children)) = 0"
  "nc_active_cell_index (nc_data (interval_cell a b material index children)) = index"
  "nc_isotropic (nc_data (interval_cell a b material index children))"
  "nc_faces (nc_data (interval_cell a b material index children)) = []"
  by (simp_all add: interval_cell_def)

lemma interval_cell_depth:
  "native_depth (interval_cell a b material index children) = Suc (native_depths children)"
  by (simp add: interval_cell_def)

lemma interval_library_sel:
  "lib_dim interval_library = Suc 0"
  "lib_spacedim interval_library = Suc 0"
  "bounding_box interval_library g = mk_box [fst g] [snd g]"
  "child_geometry interval_library g child_n =
     (if child_n = 0 then (fst g, (fst g + snd g) / 2) else ((fst g + snd g) / 2, snd g))"
  "barycenters_agree interval_library g h \<longleftrightarrow>
     \<bar>(fst g + snd g) / 2 - (fst h + snd h) / 2\<bar> < 1 / 10 ^ 12"
  "child_faces interval_library faces child_n = []"
  "extract_subcells interval_library faces = []"
  by (simp_all add: interval_library_def barycenters_agree_def l2_norm_def extract_subcells_def)

lemma intersects_intervals:
  "intersects (Suc 0) (mk_box [a] [b]) (mk_box [c] [d]) \<longleftrightarrow>
     (a \<le> c \<and> c \<le> b) \<or> (a \<le> d \<and> d \<le> b) \<or> (c \<le> a \<and> a \<le> d)"
  by (auto simp: intersects_iff axis_disjoint_def mk_box_def lower_bound_def upper_bound_def)

lemma intersects_patches_interval:
  "intersects_patches interval_library [mk_box [c] [d] ] (a, b) \<longleftrightarrow>
     (a \<le> c \<and> c \<le> b) \<or> (a \<le> d \<and> d \<le> b) \<or> (c \<le> a \<and> a \<le> d)"
  by (simp add: intersects_patches_def interval_library_sel intersects_intervals)

lemma example_n_levels: "n_levels example_native_tria = 3"
  by (simp add: n_levels_def example_native_tria_def interval_cell_depth)

lemma example_active_cells_on_level:
  "active_cells_on_level 0 example_native_tria = [interval_cell (-4) 0 7 0 [] ]"
  "active_cells_on_level (Suc 0) example_native_tria = [interval_cell 0 2 9 1 [] ]"
  "active_cells_on_level 2 example_native_tria =
     [interval_cell 2 3 5 2 [], interval_cell 3 4 6 3 [] ]"
  by (simp_all add: active_cells_on_level_def example_native_tria_def interval_cell_sel
      numeral_2_eq_2)

lemma example_cells_on_level_0:
  "cells_on_level 0 example_native_tria = example_native_tria"
  by simp

theorem reinit_fails_without_intersecting_level_witness:
  "reinit interval_library example_native_tria [mk_box [10] [11] ] = Inl ExcInternalError"
proof -
  have "\<forall>level_n<n_levels example_native_tria.
             \<forall>cell\<in>set (active_cells_on_level level_n example_native_tria).
               \<forall>patch_bbox\<in>set [mk_box [10] [11] ].
                 \<not> intersects (lib_spacedim interval_library)
                      (bounding_box interval_library (nc_geometry (nc_data cell))) patch_bbox"
  proof (intro allI impI)
    fix level_n assume "level_n < n_levels example_native_tria"
    then have "level_n = 0 \<or> level_n = Suc 0 \<or> level_n = 2"
      unfolding example_n_levels by arith
    then show "\<forall>cell\<in>set (active_cells_on_level level_n example_native_tria).
               \<forall>patch_bbox\<in>set [mk_box [10] [11] ].
                 \<not> intersects (lib_spacedim interval_library)
                      (bounding_box interval_library (nc_geometry (nc_data cell))) patch_bbox"
      by (auto simp: example_active_cells_on_level interval_cell_sel interval_library_sel
          intersects_intervals)
  qed
  from reinit_fails_without_intersecting_level[OF this] show ?thesis
    by blast
qed

lemma example_coarsest_level:
  "find_coarsest_level interval_library example_patch_bboxes example_native_tria 0 = Some 0"
  by (subst find_coarsest_level.simps)
    (simp add: example_n_levels example_active_cells_on_level interval_cell_sel
      example_patch_bboxes_def intersects_patches_interval)


lemma example_reinit_overlapping_tria:
  "reinit_overlapping_tria interval_library example_native_tria example_patch_bboxes =
     Inr (example_coarse_cells, example_table)"
  unfolding reinit_overlapping_tria_def example_coarsest_level example_n_levels
  by (simp add: level_loop.simps for_cells_on_level_def example_native_tria_def interval_cell_def
      interval_library_sel example_patch_bboxes_def intersects_patches_interval
      add_native_cell_def get_native_cell_def create_triangulation_def
      switch_material_id_def set_data_def mark_cell_def setup_cell_def new_child_def
      execute_coarsening_and_refinement_def Let_def
      example_coarse_cells_def example_table_def overlap_interval_def numeral_2_eq_2)

lemma example_active_cell_iterators:
  "active_cell_iterators example_coarse_cells =
     [overlap_interval (-4) 0 0 7 flat_manifold_id 0 [],
      overlap_interval 0 2 2 9 0 0 [],
      overlap_interval 2 4 3 8 flat_manifold_id artificial_subdomain_id [] ]"
  by (simp add: active_cell_iterators_def cell_iterators_def example_coarse_cells_def
      overlap_interval_def numeral_2_eq_2)

lemma example_reinit:
  "reinit interval_library example_native_tria example_patch_bboxes =
     Inr \<lparr>native_cells = example_table, coarse_cells = example_coarse_cells,
          cell_iterators_in_active_native_order =
            [overlap_interval (-4) 0 0 7 flat_manifold_id 0 [],
             overlap_interval 0 2 2 9 0 0 [] ]\<rparr>"
  unfolding reinit_def example_reinit_overlapping_tria
  by (simp add: example_active_cell_iterators
      overlap_interval_def artificial_subdomain_id_def example_table_def
      example_native_tria_def native_active_cell_index_def interval_cell_def)

lemma quad_library_sel:
  "lib_dim quad_library = 2"
  "lib_spacedim quad_library = 2"
  "bounding_box quad_library = quad_bounding_box"
  "child_geometry quad_library = quad_child"
  "child_faces quad_library = quad_child_faces"
  "vertices quad_library = quad_vertices"
  "barycenter quad_library = quad_barycenter"
  by (simp_all add: quad_library_def)








lemma skew_children_of_square:
  "quad_child ((0, 0), (2, 0), (0, 2), (2, 2)) 0 = ((0, 0), (1, 0), (0, 1), (1, 1))"
  "quad_child ((0, 0), (2, 0), (0, 2), (2, 2)) (Suc 0) = ((1, 0), (2, 0), (1, 1), (2, 1))"
  "quad_child ((0, 0), (2, 0), (0, 2), (2, 2)) 2 = ((0, 1), (1, 1), (0, 2), (1, 2))"
  "quad_child ((0, 0), (2, 0), (0, 2), (2, 2)) 3 = ((1, 1), (2, 1), (1, 2), (2, 2))"
  by simp_all

lemma skew_barycenters:
  "barycenters_agree quad_library ((0, 0), (1, 0), (0, 1), (1, 1))
     ((0, 0), (5 / 4, 0), (- 1 / 4, 1), (1, 1))"
  "barycenters_agree quad_library ((1, 0), (2, 0), (1, 1), (2, 1))
     ((5 / 4, 0), (2, 0), (1, 1), (7 / 4, 1))"
  "barycenters_agree quad_library ((0, 1), (1, 1), (0, 2), (1, 2))
     ((- 1 / 4, 1), (1, 1), (0, 2), (5 / 4, 2))"
  "barycenters_agree quad_library ((1, 1), (2, 1), (1, 2), (2, 2))
     ((1, 1), (7 / 4, 1), (5 / 4, 2), (2, 2))"
  by (simp_all add: barycenters_agree_def l2_norm_def quad_library_sel)










subsection \<open>Levels and loops\<close>

lemma cells_at_Nil [simp]: "cells_at d [] = []"
  by (induction d) simp_all

lemma cells_at_append: "cells_at d (xs @ ys) = cells_at d xs @ cells_at d ys"
  by (induction d arbitrary: xs ys) simp_all

lemma cells_at_Cons:
  "cells_at (Suc d) (c # cs) = cells_at d (oc_children c) @ cells_at (Suc d) cs"
  by (simp add: cells_at_append)

lemma cells_at_Suc_children: "cells_at (Suc d) cs = concat (map oc_children (cells_at d cs))"
proof (induction d arbitrary: cs)
  case 0
  show ?case by simp
next
  case (Suc d)
  have "cells_at (Suc (Suc d)) cs = cells_at (Suc d) (concat (map oc_children cs))"
    by simp
  also have "\<dots> = concat (map oc_children (cells_at d (concat (map oc_children cs))))"
    by (rule Suc.IH)
  finally show ?case by simp
qed

lemma cells_at_empty_above:
  assumes "cells_at d cs = []"
  shows "cells_at (d + k) cs = []"
proof (induction k)
  case 0
  show ?case using assms by simp
next
  case (Suc k)
  have "cells_at (Suc (d + k)) cs = concat (map oc_children (cells_at (d + k) cs))"
    by (rule cells_at_Suc_children)
  then show ?case using Suc by simp
qed

lemma for_cells_append:
  "for_cells body s (xs @ ys) =
     (case for_cells body s xs of
        Inl e \<Rightarrow> Inl e
      | Inr (xs', s1) \<Rightarrow>
          (case for_cells body s1 ys of
             Inl e \<Rightarrow> Inl e
           | Inr (ys', s2) \<Rightarrow> Inr (xs' @ ys', s2)))"
  by (induction xs arbitrary: s) (auto split: sum.splits prod.splits)

lemma for_cells_Cons_Inr:
  assumes "for_cells body s (x # xs) = Inr (zs, s')"
  obtains y ys s1 where "body s x = Inr (y, s1)" and "for_cells body s1 xs = Inr (ys, s')"
    and "zs = y # ys"
  using assms by (auto split: sum.splits prod.splits)

lemma for_cells_length:
  assumes "for_cells body s xs = Inr (ys, s')"
  shows "length ys = length xs"
  using assms
proof (induction xs arbitrary: s ys)
  case Nil
  then show ?case by simp
next
  case (Cons x xs)
  from Cons.prems obtain y ys' s1 where "for_cells body s1 xs = Inr (ys', s')" and "ys = y # ys'"
    by (rule for_cells_Cons_Inr)
  then show ?case using Cons.IH by simp
qed

lemma for_cells_rule:
  assumes run: "for_cells body s xs = Inr (ys, s')"
    and reach: "R init s"
    and step: "\<And>s x y s1. x \<in> set xs \<Longrightarrow> R init s \<Longrightarrow> body s x = Inr (y, s1) \<Longrightarrow>
                 R s s1 \<and> Q s1 x y"
    and refl: "\<And>a. R a a"
    and trans: "\<And>a b c. R a b \<Longrightarrow> R b c \<Longrightarrow> R a c"
    and mono: "\<And>s1 s2 x y. Q s1 x y \<Longrightarrow> R s1 s2 \<Longrightarrow> Q s2 x y"
  shows "R s s' \<and> list_all2 (Q s') xs ys"
  using run reach step
proof (induction xs arbitrary: s ys)
  case Nil
  then show ?case using refl by simp
next
  case (Cons x xs)
  from Cons.prems(1) obtain y ys' s1 where b: "body s x = Inr (y, s1)"
    and r: "for_cells body s1 xs = Inr (ys', s')" and ys: "ys = y # ys'"
    by (rule for_cells_Cons_Inr)
  have first: "R s s1 \<and> Q s1 x y"
    using Cons.prems(3)[of x s y s1] Cons.prems(2) b by simp
  then have reach1: "R init s1"
    using trans Cons.prems(2) by blast
  have rest: "R s1 s' \<and> list_all2 (Q s') xs ys'"
  proof (rule Cons.IH[OF r reach1])
    fix t x' y' t1
    assume "x' \<in> set xs" and "R init t" and "body t x' = Inr (y', t1)"
    then show "R t t1 \<and> Q t1 x' y'"
      using Cons.prems(3)[of x' t y' t1] by simp
  qed
  have "R s s'"
    using first rest trans by blast
  moreover have "Q s' x y"
    using first rest mono by blast
  ultimately show ?case
    using rest ys by simp
qed

lemma on_level_Suc_Inr:
  assumes "on_level (Suc l) body s c = Inr (c', s1)"
  shows "oc_data c' = oc_data c \<and>
         for_cells (on_level l body) s (oc_children c) = Inr (oc_children c', s1)"
  using assms by (auto split: sum.splits prod.splits)

lemma on_level_cells:
  assumes "for_cells (on_level l body) s F = Inr (F', s')"
  shows "for_cells body s (cells_at l F) = Inr (cells_at l F', s') \<and>
         (\<forall>d<l. list_all2 same_shell (cells_at d F) (cells_at d F'))"
  using assms
proof (induction l arbitrary: F F' s s')
  case 0
  then show ?case by simp
next
  case (Suc l)
  from Suc.prems show ?case
  proof (induction F arbitrary: F' s)
    case Nil
    then show ?case by simp
  next
    case (Cons c cs)
    from Cons.prems obtain c' cs' s1 where b: "on_level (Suc l) body s c = Inr (c', s1)"
      and r: "for_cells (on_level (Suc l) body) s1 cs = Inr (cs', s')" and F': "F' = c' # cs'"
      by (rule for_cells_Cons_Inr)
    from on_level_Suc_Inr[OF b] have data: "oc_data c' = oc_data c"
      and kids: "for_cells (on_level l body) s (oc_children c) = Inr (oc_children c', s1)"
      by simp_all
    from Suc.IH[OF kids] have k1: "for_cells body s (cells_at l (oc_children c)) =
        Inr (cells_at l (oc_children c'), s1)"
      and k2: "\<forall>d<l. list_all2 same_shell (cells_at d (oc_children c)) (cells_at d (oc_children c'))"
      by simp_all
    from Cons.IH[OF r] have r1: "for_cells body s1 (cells_at (Suc l) cs) =
        Inr (cells_at (Suc l) cs', s')"
      and r2: "\<forall>d<Suc l. list_all2 same_shell (cells_at d cs) (cells_at d cs')"
      by simp_all
    have "length (oc_children c') = length (oc_children c)"
      using for_cells_length[OF kids] .
    then have shell: "same_shell c c'"
      using data by (auto simp: same_shell_def)
    have run: "for_cells body s (cells_at (Suc l) (c # cs)) = Inr (cells_at (Suc l) F', s')"
      unfolding F' cells_at_Cons for_cells_append using k1 r1 by simp
    have shells: "list_all2 same_shell (cells_at d (c # cs)) (cells_at d F')" if "d < Suc l" for d
    proof (cases d)
      case 0
      then show ?thesis
        using shell r2 F' by auto
    next
      case (Suc d')
      then have "d' < l" using that by simp
      then have "list_all2 same_shell (cells_at d' (oc_children c)) (cells_at d' (oc_children c'))"
        using k2 by simp
      moreover have "list_all2 same_shell (cells_at (Suc d') cs) (cells_at (Suc d') cs')"
        using r2 that Suc by blast
      ultimately show ?thesis
        unfolding Suc F' cells_at_Cons by (rule list_all2_appendI)
    qed
    show ?case
      using run shells by simp
  qed
qed


subsection \<open>Single cells\<close>

lemma native_depth_pos: "0 < native_depth c"
  by (cases c) simp

lemma native_depth_le_depths: "c \<in> set cs \<Longrightarrow> native_depth c \<le> native_depths cs"
  by (induction cs) auto

lemma native_child_depth:
  assumes "child \<in> set (nc_children native)"
  shows "native_depth child \<le> native_depth native - 1"
  using native_depth_le_depths[OF assms] by (cases native) simp

lemma native_of_prefix:
  assumes "prefix tb tb'" and "oc_user_index (oc_data c) < length tb"
  shows "native_of tb' c = native_of tb c"
  using assms by (auto simp: prefix_def native_of_def nth_append)

lemma linked_prefix:
  assumes "linked L tb c" and "prefix tb tb'"
  shows "linked L tb' c"
proof -
  have lt: "oc_user_index (oc_data c) < length tb"
    using assms(1) by (simp add: linked_def)
  moreover have "length tb \<le> length tb'"
    using assms(2) by (rule prefix_length_le)
  ultimately show ?thesis
    using assms(1) native_of_prefix[OF assms(2) lt] by (simp add: linked_def)
qed

lemma fresh_prefix:
  assumes "fresh L k tb c" and "prefix tb tb'"
  shows "fresh L k tb' c"
proof -
  have lt: "oc_user_index (oc_data c) < length tb"
    using assms(1) by (simp add: fresh_def linked_def)
  show ?thesis
    using assms(1) linked_prefix[OF _ assms(2), of L c] native_of_prefix[OF assms(2) lt]
    by (simp add: fresh_def)
qed

lemma fresh_mono:
  assumes "fresh L k tb c" and "k \<le> k'"
  shows "fresh L k' tb c"
  using assms by (simp add: fresh_def)

lemma settled_prefix:
  assumes "settled L P tb c" and "prefix tb tb'"
  shows "settled L P tb' c"
proof -
  have lt: "oc_user_index (oc_data c) < length tb"
    using assms(1) by (simp add: settled_def linked_def)
  show ?thesis
    using assms(1) linked_prefix[OF _ assms(2), of L c] native_of_prefix[OF assms(2) lt]
    by (simp add: settled_def)
qed

lemma settled_same_shell:
  assumes "same_shell c c'" and "settled L P tb c"
  shows "settled L P tb c'"
  using assms by (simp add: same_shell_def settled_def linked_def native_of_def)

lemma settled_all_same_shell:
  assumes "list_all2 same_shell cs cs'" and "\<forall>c\<in>set cs. settled L P tb c"
  shows "\<forall>c'\<in>set cs'. settled L P tb c'"
proof
  fix c' assume "c' \<in> set cs'"
  then obtain c where "c \<in> set cs" and "same_shell c c'"
    using assms(1) by (metis in_set_conv_nth list_all2_conv_all_nth)
  then show "settled L P tb c'"
    using assms(2) settled_same_shell by blast
qed

lemma mark_cell_fresh:
  assumes "mark_cell L P tb r c = Inr (c1, r1)" and "fresh L k tb c"
  shows "marked L P k tb c1 \<and> (oc_refine_flag (oc_data c1) \<longrightarrow> r1) \<and> (r \<longrightarrow> r1)"
  using assms
  by (auto simp: mark_cell_def get_native_cell_def set_data_def Let_def fresh_def marked_def
      linked_def native_of_def split: if_splits)

lemma marked_unflagged_settled:
  assumes "marked L P k tb c" and "\<not> oc_refine_flag (oc_data c)"
  shows "settled L P tb c"
  using assms by (auto simp: marked_def settled_def)

lemma execute_refinement_marked:
  assumes "marked L P k tb c"
  shows "refined_cell L P k tb (execute_refinement L c)"
proof (cases c)
  case (OverlapCell d kids)
  have kids: "kids = []"
    using assms OverlapCell by (simp add: marked_def)
  have "[0..<2 ^ lib_dim L] \<noteq> []"
    by simp
  then show ?thesis
    using assms unfolding OverlapCell kids
    by (auto simp: marked_def refined_cell_def settled_def linked_def native_of_def new_child_def)
qed

lemma execute_refinement_unflagged:
  assumes "\<not> oc_refine_flag (oc_data c)"
  shows "oc_data (execute_refinement L c) = oc_data c"
    and "oc_children (execute_refinement L c) = map (execute_refinement L) (oc_children c)"
  using assms by (cases c; simp)+

lemma execute_refinement_frame:
  assumes "\<forall>d<l. \<forall>c\<in>set (cells_at d F). \<not> oc_refine_flag (oc_data c)"
  shows "cells_at l (map (execute_refinement L) F) = map (execute_refinement L) (cells_at l F) \<and>
         (\<forall>d<l. list_all2 same_shell (cells_at d F) (cells_at d (map (execute_refinement L) F)))"
  using assms
proof (induction l arbitrary: F)
  case 0
  show ?case by simp
next
  case (Suc l)
  let ?F' = "concat (map oc_children F)"
  have unflagged: "\<not> oc_refine_flag (oc_data c)" if "c \<in> set F" for c
    using Suc.prems that by (metis cells_at.simps(1) zero_less_Suc)
  have kids: "concat (map oc_children (map (execute_refinement L) F)) =
              map (execute_refinement L) ?F'"
  proof -
    have eq: "map (\<lambda>c. oc_children (execute_refinement L c)) F =
          map (\<lambda>c. map (execute_refinement L) (oc_children c)) F"
      by (rule map_cong[OF refl]) (simp add: unflagged execute_refinement_unflagged(2))
    have "concat (map oc_children (map (execute_refinement L) F)) =
          concat (map (\<lambda>c. oc_children (execute_refinement L c)) F)"
      by (simp add: comp_def)
    also have "\<dots> = concat (map (\<lambda>c. map (execute_refinement L) (oc_children c)) F)"
      by (simp only: eq)
    also have "\<dots> = map (execute_refinement L) (concat (map oc_children F))"
      by (simp add: map_concat comp_def)
    finally show ?thesis .
  qed
  have below: "\<forall>d<l. \<forall>c\<in>set (cells_at d ?F'). \<not> oc_refine_flag (oc_data c)"
  proof (intro allI impI)
    fix d assume "d < l"
    then have "Suc d < Suc l" by simp
    then have "\<forall>c\<in>set (cells_at (Suc d) F). \<not> oc_refine_flag (oc_data c)"
      using Suc.prems by blast
    then show "\<forall>c\<in>set (cells_at d ?F'). \<not> oc_refine_flag (oc_data c)"
      by simp
  qed
  from Suc.IH[OF below]
  have ih1: "cells_at l (map (execute_refinement L) ?F') =
             map (execute_refinement L) (cells_at l ?F')"
    and ih2: "\<forall>d<l. list_all2 same_shell (cells_at d ?F')
                (cells_at d (map (execute_refinement L) ?F'))"
    by simp_all
  have level: "cells_at (Suc l) (map (execute_refinement L) F) =
               map (execute_refinement L) (cells_at (Suc l) F)"
    using kids ih1 by simp
  have top: "list_all2 same_shell F (map (execute_refinement L) F)"
    unfolding list_all2_map2
    by (rule list.rel_refl_strong)
      (simp add: same_shell_def unflagged execute_refinement_unflagged)
  have shells: "list_all2 same_shell (cells_at d F) (cells_at d (map (execute_refinement L) F))"
    if "d < Suc l" for d
  proof (cases d)
    case 0
    then show ?thesis using top by simp
  next
    case (Suc d')
    then have "d' < l" using that by simp
    then show ?thesis
      using ih2 kids unfolding Suc by simp
  qed
  show ?case
    using level shells by blast
qed

lemma setup_children_Cons_Inr:
  assumes "setup_children L native n tb (kid # kids) = Inr (zs, tb')"
  obtains kid' kids' where "n < length (nc_children native)"
    and "barycenters_agree L (oc_geometry (oc_data kid))
           (nc_geometry (nc_data (nc_children native ! n)))"
    and "setup_children L native (Suc n) (tb @ [nc_children native ! n]) kids = Inr (kids', tb')"
    and "zs = kid' # kids'"
    and "oc_children kid' = oc_children kid"
    and "oc_refine_flag (oc_data kid') = oc_refine_flag (oc_data kid)"
    and "oc_geometry (oc_data kid') = oc_geometry (oc_data kid)"
    and "oc_user_index (oc_data kid') = length tb"
    and "nc_children (nc_children native ! n) = [] \<longrightarrow>
           oc_material_id (oc_data kid') = nc_material_id (nc_data (nc_children native ! n))"
  using assms
  by (auto simp: Let_def add_native_cell_def set_data_def split: if_splits sum.splits prod.splits)

lemma setup_children_fresh:
  assumes "setup_children L native n tb kids = Inr (kids', tb')"
    and "\<forall>kid\<in>set kids. oc_children kid = [] \<and> \<not> oc_refine_flag (oc_data kid)"
  shows "prefix tb tb' \<and> length kids' = length kids \<and>
         (\<forall>kid'\<in>set kids'. fresh L (native_depth native - 1) tb' kid')"
  using assms
proof (induction kids arbitrary: n tb kids')
  case Nil
  then show ?case by simp
next
  case (Cons kid kids)
  let ?nc = "nc_children native ! n"
  from Cons.prems(1) obtain kid' rest where n: "n < length (nc_children native)"
    and bary: "barycenters_agree L (oc_geometry (oc_data kid)) (nc_geometry (nc_data ?nc))"
    and run: "setup_children L native (Suc n) (tb @ [?nc]) kids = Inr (rest, tb')"
    and zs: "kids' = kid' # rest"
    and ch: "oc_children kid' = oc_children kid"
    and fl: "oc_refine_flag (oc_data kid') = oc_refine_flag (oc_data kid)"
    and ge: "oc_geometry (oc_data kid') = oc_geometry (oc_data kid)"
    and ui: "oc_user_index (oc_data kid') = length tb"
    and ma: "nc_children ?nc = [] \<longrightarrow> oc_material_id (oc_data kid') = nc_material_id (nc_data ?nc)"
    by (rule setup_children_Cons_Inr)
  have rest_ok: "\<forall>kid\<in>set kids. oc_children kid = [] \<and> \<not> oc_refine_flag (oc_data kid)"
    using Cons.prems(2) by simp
  from Cons.IH[OF run rest_ok]
  have pre: "prefix (tb @ [?nc]) tb'" and len: "length rest = length kids"
    and fr: "\<forall>kid'\<in>set rest. fresh L (native_depth native - 1) tb' kid'"
    by simp_all
  have nat: "native_of (tb @ [?nc]) kid' = ?nc"
    by (simp add: native_of_def ui)
  have "?nc \<in> set (nc_children native)"
    using n by simp
  then have depth: "native_depth ?nc \<le> native_depth native - 1"
    by (rule native_child_depth)
  have "fresh L (native_depth native - 1) (tb @ [?nc]) kid'"
    using Cons.prems(2) ch fl ge ui ma bary depth
    by (simp add: fresh_def linked_def nat)
  then have "fresh L (native_depth native - 1) tb' kid'"
    using pre by (rule fresh_prefix)
  moreover have "prefix tb tb'"
    using pre by (metis prefix_order.trans prefixI)
  ultimately show ?case
    using len fr zs by simp
qed

lemma setup_cell_refined:
  assumes "setup_cell L t c2 = Inr (c3, t1)" and "refined_cell L P k tb c2" and "prefix tb t"
  shows "prefix t t1 \<and> oc_data c3 = oc_data c2 \<and>
         (oc_children c3 = [] \<longleftrightarrow> oc_children c2 = []) \<and>
         (\<forall>kid\<in>set (oc_children c3). fresh L (k - 1) t1 kid)"
proof (cases "oc_children c2 = []")
  case True
  then show ?thesis
    using assms(1) by (simp add: setup_cell_def)
next
  case False
  have lt: "oc_user_index (oc_data c2) < length tb"
    using assms(2) by (simp add: refined_cell_def settled_def linked_def)
  have lt': "oc_user_index (oc_data c2) < length t"
    using lt prefix_length_le[OF assms(3)] by simp
  have nat: "t ! oc_user_index (oc_data c2) = native_of tb c2"
    using native_of_prefix[OF assms(3) lt] by (simp add: native_of_def)
  from assms(1) False lt' obtain kids' where
    run: "setup_children L (native_of tb c2) 0 t (oc_children c2) = Inr (kids', t1)"
    and c3: "c3 = OverlapCell (oc_data c2) kids'"
    by (auto simp: setup_cell_def get_native_cell_def nat split: sum.splits prod.splits)
  have raw: "\<forall>kid\<in>set (oc_children c2). oc_children kid = [] \<and> \<not> oc_refine_flag (oc_data kid)"
    using assms(2) by (simp add: refined_cell_def)
  from setup_children_fresh[OF run raw]
  have pre: "prefix t t1" and len: "length kids' = length (oc_children c2)"
    and fr: "\<forall>kid'\<in>set kids'. fresh L (native_depth (native_of tb c2) - 1) t1 kid'"
    by simp_all
  have "native_depth (native_of tb c2) \<le> k"
    using assms(2) by (simp add: refined_cell_def)
  then have "native_depth (native_of tb c2) - 1 \<le> k - 1"
    by arith
  then have "\<forall>kid'\<in>set kids'. fresh L (k - 1) t1 kid'"
    using fr fresh_mono by blast
  then show ?thesis
    using pre len False c3 by auto
qed


subsection \<open>One level\<close>

lemma list_all2_witness:
  assumes "list_all2 Q xs ys" and "y \<in> set ys"
  obtains x where "x \<in> set xs" and "Q x y"
  using assms by (metis in_set_conv_nth list_all2_conv_all_nth)

lemma mark_stage:
  assumes inv: "level_inv L P n l tb F"
    and mark: "for_cells_on_level l (mark_cell L P tb) False F = Inr (F1, refined)"
  shows "(\<forall>d<l. \<forall>c\<in>set (cells_at d F1). settled L P tb c) \<and>
         (\<forall>c\<in>set (cells_at l F1).
            marked L P (n - l) tb c \<and> (oc_refine_flag (oc_data c) \<longrightarrow> refined)) \<and>
         cells_at (Suc l) F1 = []"
proof -
  from on_level_cells[OF mark[unfolded for_cells_on_level_def] ]
  have run: "for_cells (mark_cell L P tb) False (cells_at l F) = Inr (cells_at l F1, refined)"
    and shells: "\<forall>d<l. list_all2 same_shell (cells_at d F) (cells_at d F1)"
    by simp_all
  have fresh: "fresh L (n - l) tb c" if "c \<in> set (cells_at l F)" for c
    using inv that by (simp add: level_inv_def)
  have "(False \<longrightarrow> refined) \<and>
        list_all2 (\<lambda>c c1. marked L P (n - l) tb c1 \<and> (oc_refine_flag (oc_data c1) \<longrightarrow> refined))
          (cells_at l F) (cells_at l F1)"
  proof (rule for_cells_rule[OF run, where R = "\<lambda>a b. a \<longrightarrow> b" and init = False
        and Q = "\<lambda>r c c1. marked L P (n - l) tb c1 \<and> (oc_refine_flag (oc_data c1) \<longrightarrow> r)"])
    fix r c c1 r1
    assume "c \<in> set (cells_at l F)" and "mark_cell L P tb r c = Inr (c1, r1)"
    then show "(r \<longrightarrow> r1) \<and> marked L P (n - l) tb c1 \<and> (oc_refine_flag (oc_data c1) \<longrightarrow> r1)"
      using mark_cell_fresh[of L P tb r c c1 r1 "n - l"] fresh by blast
  qed auto
  then have all: "list_all2 (\<lambda>c c1. marked L P (n - l) tb c1 \<and>
                    (oc_refine_flag (oc_data c1) \<longrightarrow> refined)) (cells_at l F) (cells_at l F1)"
    by simp
  have level: "\<forall>c\<in>set (cells_at l F1).
                 marked L P (n - l) tb c \<and> (oc_refine_flag (oc_data c) \<longrightarrow> refined)"
  proof
    fix c1 assume "c1 \<in> set (cells_at l F1)"
    with all show "marked L P (n - l) tb c1 \<and> (oc_refine_flag (oc_data c1) \<longrightarrow> refined)"
      by (rule list_all2_witness)
  qed
  have above: "\<forall>d<l. \<forall>c\<in>set (cells_at d F1). settled L P tb c"
  proof (intro allI impI)
    fix d assume d: "d < l"
    then have "\<forall>c\<in>set (cells_at d F). settled L P tb c"
      using inv by (simp add: level_inv_def)
    moreover have "list_all2 same_shell (cells_at d F) (cells_at d F1)"
      using shells d by simp
    ultimately show "\<forall>c\<in>set (cells_at d F1). settled L P tb c"
      using settled_all_same_shell by blast
  qed
  have "oc_children c = []" if "c \<in> set (cells_at l F1)" for c
    using level that by (simp add: marked_def)
  then have below: "cells_at (Suc l) F1 = []"
    unfolding cells_at_Suc_children by simp
  show ?thesis
    using above level below by blast
qed

lemma refine_stage:
  assumes above: "\<forall>d<l. \<forall>c\<in>set (cells_at d F1). settled L P tb c"
    and level: "\<forall>c\<in>set (cells_at l F1). marked L P k tb c"
    and children: "for_cells_on_level l (setup_cell L) tb
                  (execute_coarsening_and_refinement L F1) = Inr (F2, tb')"
  shows "prefix tb tb' \<and>
         (\<forall>d<Suc l. \<forall>c\<in>set (cells_at d F2). settled L P tb' c) \<and>
         (\<forall>c\<in>set (cells_at (Suc l) F2). fresh L (k - 1) tb' c) \<and>
         cells_at (Suc (Suc l)) F2 = []"
proof -
  let ?F = "map (execute_refinement L) F1"
  have unflagged: "\<forall>d<l. \<forall>c\<in>set (cells_at d F1). \<not> oc_refine_flag (oc_data c)"
    using above by (simp add: settled_def)
  from execute_refinement_frame[OF unflagged]
  have lev: "cells_at l ?F = map (execute_refinement L) (cells_at l F1)"
    and shells1: "\<forall>d<l. list_all2 same_shell (cells_at d F1) (cells_at d ?F)"
    by simp_all
  have refined: "refined_cell L P k tb c" if "c \<in> set (cells_at l ?F)" for c
    using that level unfolding lev by (auto intro: execute_refinement_marked)
  have above1: "\<forall>c\<in>set (cells_at d ?F). settled L P tb c" if "d < l" for d
    using that above shells1 settled_all_same_shell by blast
  from on_level_cells[OF children[unfolded for_cells_on_level_def
        execute_coarsening_and_refinement_def] ]
  have run: "for_cells (setup_cell L) tb (cells_at l ?F) = Inr (cells_at l F2, tb')"
    and shells2: "\<forall>d<l. list_all2 same_shell (cells_at d ?F) (cells_at d F2)"
    by simp_all
  have res: "prefix tb tb' \<and>
        list_all2 (\<lambda>c2 c3. oc_data c3 = oc_data c2 \<and>
                     (oc_children c3 = [] \<longleftrightarrow> oc_children c2 = []) \<and>
                     (\<forall>kid\<in>set (oc_children c3). fresh L (k - 1) tb' kid))
          (cells_at l ?F) (cells_at l F2)"
  proof (rule for_cells_rule[OF run, where R = prefix and init = tb
        and Q = "\<lambda>t c2 c3. oc_data c3 = oc_data c2 \<and>
                     (oc_children c3 = [] \<longleftrightarrow> oc_children c2 = []) \<and>
                     (\<forall>kid\<in>set (oc_children c3). fresh L (k - 1) t kid)"])
    show "prefix tb tb" by simp
  next
    fix t c2 c3 t1
    assume "c2 \<in> set (cells_at l ?F)" and "prefix tb t" and "setup_cell L t c2 = Inr (c3, t1)"
    then show "prefix t t1 \<and> oc_data c3 = oc_data c2 \<and>
               (oc_children c3 = [] \<longleftrightarrow> oc_children c2 = []) \<and>
               (\<forall>kid\<in>set (oc_children c3). fresh L (k - 1) t1 kid)"
      using setup_cell_refined[of L t c2 c3 t1 P k tb] refined by blast
  next
    fix a :: "'a native_cell list"
    show "prefix a a" by simp
  next
    fix a b c :: "'a native_cell list"
    assume "prefix a b" and "prefix b c"
    then show "prefix a c" by (rule prefix_order.trans)
  next
    fix s1 s2 :: "'a native_cell list" and c2 c3 :: "'a overlap_cell"
    assume "oc_data c3 = oc_data c2 \<and> (oc_children c3 = [] \<longleftrightarrow> oc_children c2 = []) \<and>
            (\<forall>kid\<in>set (oc_children c3). fresh L (k - 1) s1 kid)" and "prefix s1 s2"
    then show "oc_data c3 = oc_data c2 \<and> (oc_children c3 = [] \<longleftrightarrow> oc_children c2 = []) \<and>
            (\<forall>kid\<in>set (oc_children c3). fresh L (k - 1) s2 kid)"
      using fresh_prefix by blast
  qed
  then have pre: "prefix tb tb'" and
    all: "list_all2 (\<lambda>c2 c3. oc_data c3 = oc_data c2 \<and>
                     (oc_children c3 = [] \<longleftrightarrow> oc_children c2 = []) \<and>
                     (\<forall>kid\<in>set (oc_children c3). fresh L (k - 1) tb' kid))
          (cells_at l ?F) (cells_at l F2)"
    by simp_all
  have at_l: "settled L P tb' c3 \<and> (\<forall>kid\<in>set (oc_children c3). fresh L (k - 1) tb' kid)"
    if "c3 \<in> set (cells_at l F2)" for c3
  proof -
    from all that obtain c2 where c2: "c2 \<in> set (cells_at l ?F)"
      and rel: "oc_data c3 = oc_data c2 \<and> (oc_children c3 = [] \<longleftrightarrow> oc_children c2 = []) \<and>
                (\<forall>kid\<in>set (oc_children c3). fresh L (k - 1) tb' kid)"
      by (rule list_all2_witness)
    have "settled L P tb c2"
      using refined[OF c2] by (simp add: refined_cell_def)
    moreover have "same_shell c2 c3"
      using rel by (simp add: same_shell_def)
    ultimately have "settled L P tb c3"
      using settled_same_shell by blast
    then have "settled L P tb' c3"
      using pre by (rule settled_prefix)
    then show ?thesis using rel by simp
  qed
  have settled_all: "\<forall>c\<in>set (cells_at d F2). settled L P tb' c" if "d < Suc l" for d
  proof (cases "d = l")
    case True
    then show ?thesis using at_l by simp
  next
    case False
    then have d: "d < l" using that by simp
    have "\<forall>c\<in>set (cells_at d F2). settled L P tb c"
      using above1[OF d] shells2 d settled_all_same_shell by blast
    then show ?thesis
      using pre settled_prefix by blast
  qed
  have next_level: "\<forall>c\<in>set (cells_at (Suc l) F2). fresh L (k - 1) tb' c"
    unfolding cells_at_Suc_children using at_l by auto
  then have "oc_children c = []" if "c \<in> set (cells_at (Suc l) F2)" for c
    using that by (simp add: fresh_def)
  then have "cells_at (Suc (Suc l)) F2 = []"
    unfolding cells_at_Suc_children[of "Suc l"] by simp
  then show ?thesis
    using pre settled_all next_level by blast
qed



subsection \<open>The loop over the levels\<close>

lemma level_loop_settled:
  assumes "level_loop L P n l tb F = Inr (F', tb')" and "level_inv L P n l tb F"
  shows "\<forall>d. \<forall>c\<in>set (cells_at d F'). settled L P tb' c"
  using assms
proof (induction L P n l tb F rule: level_loop.induct)
  case (1 L P n l tb F)
  note unfold = level_loop.simps[of L P n l tb F]
  show ?case
  proof (cases "l < n")
    case False
    then have out: "F' = F" "tb' = tb"
      using "1.prems"(1) unfold by simp_all
    have ln: "l = n"
      using False "1.prems"(2) by (simp add: level_inv_def)
    have "cells_at l F = []"
    proof (rule ccontr)
      assume "cells_at l F \<noteq> []"
      then obtain c where "c \<in> set (cells_at l F)"
        by (cases "cells_at l F") auto
      then have "fresh L (n - l) tb c"
        using "1.prems"(2) by (simp add: level_inv_def)
      then have "native_depth (native_of tb c) \<le> 0"
        using ln by (simp add: fresh_def)
      then show False
        using native_depth_pos[of "native_of tb c"] by simp
    qed
    then have empty: "cells_at (l + k) F = []" for k
      by (rule cells_at_empty_above)
    show ?thesis
    proof (intro allI)
      fix d
      show "\<forall>c\<in>set (cells_at d F'). settled L P tb' c"
      proof (cases "d < l")
        case True
        then show ?thesis
          using "1.prems"(2) out by (simp add: level_inv_def)
      next
        case False
        then have "d = l + (d - l)" by simp
        then have "cells_at d F = []"
          using empty[of "d - l"] by simp
        then show ?thesis using out by simp
      qed
    qed
  next
    case True
    from "1.prems"(1) True obtain F1 refined where
      mark: "for_cells_on_level l (mark_cell L P tb) False F = Inr (F1, refined)"
      using unfold by (auto split: sum.splits)
    from mark_stage[OF "1.prems"(2) mark]
    have above: "\<forall>d<l. \<forall>c\<in>set (cells_at d F1). settled L P tb c"
      and level: "\<forall>c\<in>set (cells_at l F1).
                    marked L P (n - l) tb c \<and> (oc_refine_flag (oc_data c) \<longrightarrow> refined)"
      and below: "cells_at (Suc l) F1 = []"
      by simp_all
    show ?thesis
    proof (cases refined)
      case False
      have next_run: "level_loop L P n (Suc l) tb F1 = Inr (F', tb')"
        using "1.prems"(1) True mark False unfold by simp
      have "settled L P tb c" if "c \<in> set (cells_at l F1)" for c
        using level that False marked_unflagged_settled by blast
      then have st: "\<forall>d<Suc l. \<forall>c\<in>set (cells_at d F1). settled L P tb c"
        using above by (auto simp: less_Suc_eq)
      have "cells_at (Suc l + 1) F1 = []"
        using below by (rule cells_at_empty_above)
      then have inv': "level_inv L P n (Suc l) tb F1"
        using st below True by (simp add: level_inv_def)
      show ?thesis
        using "1.IH"(2)[OF True mark refl False next_run inv'] .
    next
      case refined: True
      from "1.prems"(1) True mark refined obtain F2 tb2 where
        children: "for_cells_on_level l (setup_cell L) tb
                     (execute_coarsening_and_refinement L F1) = Inr (F2, tb2)"
        and next_run: "level_loop L P n (Suc l) tb2 F2 = Inr (F', tb')"
        using unfold by (auto split: sum.splits)
      have level': "\<forall>c\<in>set (cells_at l F1). marked L P (n - l) tb c"
        using level by simp
      from refine_stage[OF above level' children]
      have st: "\<forall>d<Suc l. \<forall>c\<in>set (cells_at d F2). settled L P tb2 c"
        and fr: "\<forall>c\<in>set (cells_at (Suc l) F2). fresh L (n - l - 1) tb2 c"
        and empty: "cells_at (Suc (Suc l)) F2 = []"
        by simp_all
      have inv': "level_inv L P n (Suc l) tb2 F2"
        using st fr empty True by (simp add: level_inv_def)
      show ?thesis
        using "1.IH"(1)[OF True mark refl refined children refl next_run inv'] .
    qed
  qed
qed

subsection \<open>The coarsest level\<close>

lemma native_depths_append:
  "native_depths (xs @ ys) = max (native_depths xs) (native_depths ys)"
  by (induction xs) simp_all

lemma native_depths_children:
  "native_depths (concat (map nc_children cs)) = native_depths cs - 1"
proof (induction cs)
  case Nil
  show ?case by simp
next
  case (Cons c cs)
  have "native_depth c = Suc (native_depths (nc_children c))"
    by (cases c) simp
  then show ?case
    using Cons by (simp add: native_depths_append)
qed

lemma cells_on_level_depth:
  assumes "c \<in> set (cells_on_level l cs)"
  shows "native_depth c + l \<le> native_depths cs"
  using assms
proof (induction l arbitrary: cs)
  case 0
  then show ?case by (simp add: native_depth_le_depths)
next
  case (Suc l)
  then have "native_depth c + l \<le> native_depths (concat (map nc_children cs))"
    by simp
  then have "native_depth c + l \<le> native_depths cs - 1"
    by (simp add: native_depths_children)
  moreover have "0 < native_depth c"
    by (rule native_depth_pos)
  ultimately show ?case by arith
qed

lemma collect_cells_ok:
  assumes "collect_cells L P ncs tb cds = (tb', cds')"
    and "\<forall>cd\<in>set cds. seed_ok L S tb cd"
    and "set ncs \<subseteq> S"
  shows "\<forall>cd\<in>set cds'. seed_ok L S tb' cd"
  using assms
proof (induction ncs arbitrary: tb cds)
  case Nil
  then show ?case by simp
next
  case (Cons c ncs)
  show ?case
  proof (cases "intersects_patches L P (nc_geometry (nc_data c))")
    case False
    then show ?thesis
      using Cons.IH[of tb cds] Cons.prems by simp
  next
    case True
    let ?cd = "\<lparr>cd_vertices = nc_geometry (nc_data c), cd_material_id = length tb,
               cd_subcells = extract_subcells L (nc_faces (nc_data c))\<rparr>"
    have run: "collect_cells L P ncs (tb @ [c]) (cds @ [?cd]) = (tb', cds')"
      using Cons.prems(1) True by (simp add: add_native_cell_def)
    have old: "seed_ok L S (tb @ [c]) cd" if "cd \<in> set cds" for cd
    proof -
      have "seed_ok L S tb cd"
        using Cons.prems(2) that by blast
      then show ?thesis
        by (simp add: seed_ok_def nth_append)
    qed
    have new: "seed_ok L S (tb @ [c]) ?cd"
      using Cons.prems(3) by (simp add: seed_ok_def)
    have "\<forall>cd\<in>set (cds @ [?cd]). seed_ok L S (tb @ [c]) cd"
      using old new by auto
    then show ?thesis
      using Cons.IH[OF run] Cons.prems(3) by simp
  qed
qed

lemma l2_norm_zeros: "l2_norm (map (\<lambda>(x, y). x - y) (zip v v)) = 0"
proof -
  have "map (\<lambda>x. x * x) (map (\<lambda>(x, y). x - y) (zip v v)) = map (\<lambda>x. 0) v"
    by (induction v) simp_all
  then show ?thesis
    by (simp add: l2_norm_def sum_list_0)
qed

lemma barycenters_agree_refl: "barycenters_agree L g g"
  by (simp add: barycenters_agree_def l2_norm_zeros)

lemma switch_material_id_fresh:
  assumes "switch_material_id tb u (OverlapCell \<lparr>oc_geometry = cd_vertices cd,
                         oc_faces = cd_subcells cd, oc_user_index = 0,
                         oc_material_id = cd_material_id cd,
                         oc_manifold_id = flat_manifold_id, oc_subdomain_id = 0,
                         oc_refine_flag = False\<rparr> []) = Inr (cell, u')"
    and "seed_ok L S tb cd" and "\<forall>c\<in>S. native_depth c \<le> k"
  shows "fresh L k tb cell \<and> copied L tb cell"
  using assms
  by (auto simp: switch_material_id_def set_data_def get_native_cell_def Let_def seed_ok_def
      fresh_def linked_def copied_def native_of_def barycenters_agree_refl split: if_splits)

lemma seed_cells_fresh:
  assumes run: "for_cells_on_level 0 (switch_material_id tb) () (create_triangulation cds) =
             Inr (coarse, u)"
    and ok: "\<forall>cd\<in>set cds. seed_ok L S tb cd" and depth: "\<forall>c\<in>S. native_depth c \<le> k"
  shows "\<forall>cell\<in>set coarse. fresh L k tb cell \<and> copied L tb cell"
proof -
  have run': "for_cells (switch_material_id tb) () (create_triangulation cds) = Inr (coarse, u)"
    using run by (simp add: for_cells_on_level_def)
  have "True \<and> list_all2 (\<lambda>c cell. fresh L k tb cell \<and> copied L tb cell)
                  (create_triangulation cds) coarse"
  proof (rule for_cells_rule[OF run', where R = "\<lambda>a b. True" and init = "()"
        and Q = "\<lambda>u c cell. fresh L k tb cell \<and> copied L tb cell"])
    fix s c cell s1
    assume "c \<in> set (create_triangulation cds)"
      and "switch_material_id tb s c = Inr (cell, s1)"
    then show "True \<and> fresh L k tb cell \<and> copied L tb cell"
      using switch_material_id_fresh[of tb s _ cell s1 L S k] ok depth
      by (auto simp: create_triangulation_def)
  qed auto
  then have all: "list_all2 (\<lambda>c cell. fresh L k tb cell \<and> copied L tb cell)
                    (create_triangulation cds) coarse"
    by simp
  show ?thesis
  proof
    fix cell assume "cell \<in> set coarse"
    with all show "fresh L k tb cell \<and> copied L tb cell"
      by (rule list_all2_witness)
  qed
qed

lemma reinit_overlapping_tria_settled:
  assumes "reinit_overlapping_tria L native_tria P = Inr (cells, table)"
  shows "\<forall>d. \<forall>c\<in>set (cells_at d cells). settled L P table c"
proof -
  from assms obtain coarsest where
    found: "find_coarsest_level L P native_tria 0 = Some coarsest"
    by (auto simp: reinit_overlapping_tria_def split: option.splits)
  obtain tb cds where
    coll: "collect_cells L P (cells_on_level coarsest native_tria) [] [] = (tb, cds)"
    by (cases "collect_cells L P (cells_on_level coarsest native_tria) [] []")
  from assms found coll obtain coarse u where
    sw: "for_cells_on_level 0 (switch_material_id tb) () (create_triangulation cds) =
           Inr (coarse, u)"
    and loop: "level_loop L P (n_levels native_tria - coarsest) 0 tb coarse = Inr (cells, table)"
    by (auto simp: reinit_overlapping_tria_def split: sum.splits)
  let ?S = "set (cells_on_level coarsest native_tria)"
  let ?k = "n_levels native_tria - coarsest"
  have ok: "\<forall>cd\<in>set cds. seed_ok L ?S tb cd"
    using collect_cells_ok[OF coll, of ?S] by simp
  have depth: "\<forall>c\<in>?S. native_depth c \<le> ?k"
  proof
    fix c assume "c \<in> ?S"
    then have "native_depth c + coarsest \<le> n_levels native_tria"
      unfolding n_levels_def by (rule cells_on_level_depth)
    then show "native_depth c \<le> ?k" by simp
  qed
  have fr: "\<forall>cell\<in>set coarse. fresh L ?k tb cell"
    using seed_cells_fresh[OF sw ok depth] by blast
  then have "oc_children cell = []" if "cell \<in> set coarse" for cell
    using that by (simp add: fresh_def)
  then have "cells_at (Suc 0) coarse = []"
    by simp
  then have "level_inv L P ?k 0 tb coarse"
    using fr by (simp add: level_inv_def)
  then show ?thesis
    using level_loop_settled[OF loop] by simp
qed


subsection \<open>Cells of the coarsest level stay copies\<close>















subsection \<open>The finished triangulation\<close>

lemma overlap_depth_pos: "0 < overlap_depth c"
  by (cases c) simp

lemma overlap_depth_le_depths: "c \<in> set cs \<Longrightarrow> overlap_depth c \<le> overlap_depths cs"
  by (induction cs) auto

lemma overlap_depths_append:
  "overlap_depths (xs @ ys) = max (overlap_depths xs) (overlap_depths ys)"
  by (induction xs) simp_all

lemma overlap_depths_children:
  "overlap_depths (concat (map oc_children cs)) = overlap_depths cs - 1"
proof (induction cs)
  case Nil
  show ?case by simp
next
  case (Cons c cs)
  have "overlap_depth c = Suc (overlap_depths (oc_children c))"
    by (cases c) simp
  then show ?case
    using Cons by (simp add: overlap_depths_append)
qed

lemma cells_at_depth:
  assumes "c \<in> set (cells_at d cs)"
  shows "d < overlap_depths cs"
  using assms
proof (induction d arbitrary: cs)
  case 0
  then show ?case
    using overlap_depth_le_depths[of c cs] overlap_depth_pos[of c] by simp
next
  case (Suc d)
  then have "d < overlap_depths (concat (map oc_children cs))"
    by simp
  then show ?case
    by (simp add: overlap_depths_children)
qed

lemma set_cell_iterators: "set (cell_iterators cs) = (\<Union>d. set (cells_at d cs))"
proof
  show "set (cell_iterators cs) \<subseteq> (\<Union>d. set (cells_at d cs))"
    by (auto simp: cell_iterators_def)
  show "(\<Union>d. set (cells_at d cs)) \<subseteq> set (cell_iterators cs)"
    using cells_at_depth by (fastforce simp: cell_iterators_def)
qed

lemma active_cell_on_some_level:
  assumes "c \<in> set (active_cell_iterators cs)"
  obtains d where "c \<in> set (cells_at d cs)" and "oc_children c = []"
  using assms by (auto simp: active_cell_iterators_def set_cell_iterators)

lemma artificial_not_owned: "artificial_subdomain_id \<noteq> 0"
  by (simp add: artificial_subdomain_id_def)

lemma reinit_Inr:
  assumes "reinit L shared_tria P = Inr tria"
  shows "reinit_overlapping_tria L shared_tria P = Inr (coarse_cells tria, native_cells tria) \<and>
         cell_iterators_in_active_native_order tria =
           sort_key (native_active_cell_index (native_cells tria))
             (filter (\<lambda>cell. oc_subdomain_id (oc_data cell) \<noteq> artificial_subdomain_id)
                (active_cell_iterators (coarse_cells tria)))"
  using assms by (auto simp: reinit_def Let_def split: sum.splits if_splits)

text \<open>
  C10. After \<open>reinit\<close> every cell of the overlap triangulation has subdomain id 0 or the
  artificial subdomain id, and \<open>locally_owned_subdomain\<close> is 0: a cell is locally owned
  exactly when its bounding box intersects a patch. The cached list holds exactly the
  active cells that intersect a patch, sorted by the active cell index of their native
  cells.
\<close>

theorem reinit_subdomain_ids_and_cached_cells:
  assumes "reinit L shared_tria patch_bboxes = Inr tria"
  shows "(\<forall>level_n. \<forall>cell\<in>set (cells_at level_n (coarse_cells tria)).
            (oc_subdomain_id (oc_data cell) = 0 \<or>
             oc_subdomain_id (oc_data cell) = artificial_subdomain_id) \<and>
            (is_locally_owned cell \<longleftrightarrow>
               intersects_patches L patch_bboxes (oc_geometry (oc_data cell)))) \<and>
         locally_owned_subdomain = 0 \<and>
         mset (cell_iterators_in_active_native_order tria) =
           mset (filter (\<lambda>cell. intersects_patches L patch_bboxes (oc_geometry (oc_data cell)))
                   (active_cell_iterators (coarse_cells tria))) \<and>
         sorted (map (native_active_cell_index (native_cells tria))
                   (cell_iterators_in_active_native_order tria))"
proof -
  from reinit_Inr[OF assms]
  have built: "reinit_overlapping_tria L shared_tria patch_bboxes =
                 Inr (coarse_cells tria, native_cells tria)"
    and cached: "cell_iterators_in_active_native_order tria =
           sort_key (native_active_cell_index (native_cells tria))
             (filter (\<lambda>cell. oc_subdomain_id (oc_data cell) \<noteq> artificial_subdomain_id)
                (active_cell_iterators (coarse_cells tria)))"
    by simp_all
  have st: "settled L patch_bboxes (native_cells tria) cell"
    if "cell \<in> set (cells_at d (coarse_cells tria))" for d cell
    using reinit_overlapping_tria_settled[OF built] that by blast
  have ids: "oc_subdomain_id (oc_data cell) =
               (if intersects_patches L patch_bboxes (oc_geometry (oc_data cell)) then 0
                else artificial_subdomain_id)"
    if "cell \<in> set (cells_at d (coarse_cells tria))" for d cell
    using st[OF that] by (simp add: settled_def)
  have cells: "\<forall>level_n. \<forall>cell\<in>set (cells_at level_n (coarse_cells tria)).
            (oc_subdomain_id (oc_data cell) = 0 \<or>
             oc_subdomain_id (oc_data cell) = artificial_subdomain_id) \<and>
            (is_locally_owned cell \<longleftrightarrow>
               intersects_patches L patch_bboxes (oc_geometry (oc_data cell)))"
    using ids artificial_not_owned
    by (auto simp: is_locally_owned_def locally_owned_subdomain_def)
  have same_filter:
    "filter (\<lambda>cell. oc_subdomain_id (oc_data cell) \<noteq> artificial_subdomain_id)
        (active_cell_iterators (coarse_cells tria)) =
     filter (\<lambda>cell. intersects_patches L patch_bboxes (oc_geometry (oc_data cell)))
        (active_cell_iterators (coarse_cells tria))"
  proof (rule filter_cong[OF refl])
    fix cell assume "cell \<in> set (active_cell_iterators (coarse_cells tria))"
    then obtain d where "cell \<in> set (cells_at d (coarse_cells tria))"
      by (rule active_cell_on_some_level)
    from ids[OF this] show "(oc_subdomain_id (oc_data cell) \<noteq> artificial_subdomain_id) =
        intersects_patches L patch_bboxes (oc_geometry (oc_data cell))"
      using artificial_not_owned by auto
  qed
  have content: "mset (cell_iterators_in_active_native_order tria) =
           mset (filter (\<lambda>cell. intersects_patches L patch_bboxes (oc_geometry (oc_data cell)))
                   (active_cell_iterators (coarse_cells tria)))"
    unfolding cached same_filter by simp
  have order: "sorted (map (native_active_cell_index (native_cells tria))
                   (cell_iterators_in_active_native_order tria))"
    unfolding cached by simp
  show ?thesis
    using cells content order by (simp add: locally_owned_subdomain_def)
qed

theorem reinit_subdomain_ids_and_cached_cells_witness:
  "reinit interval_library example_native_tria example_patch_bboxes = Inr example_overlap_tria \<and>
   locally_owned_subdomain = 0 \<and>
   mset (cell_iterators_in_active_native_order example_overlap_tria) =
     mset (filter (\<lambda>cell. intersects_patches interval_library example_patch_bboxes
                           (oc_geometry (oc_data cell)))
             (active_cell_iterators (coarse_cells example_overlap_tria))) \<and>
   sorted (map (native_active_cell_index (native_cells example_overlap_tria))
             (cell_iterators_in_active_native_order example_overlap_tria))"
proof -
  have r: "reinit interval_library example_native_tria example_patch_bboxes =
             Inr example_overlap_tria"
    by (simp add: example_reinit example_overlap_tria_def)
  show ?thesis
    using reinit_subdomain_ids_and_cached_cells[OF r] r by blast
qed



end
